theory Spec2Isabelle
  imports Main
begin

section \<open>Errors and the ring interface\<close>

text \<open>
  The Python exceptions the two modules and the rings under them raise
  (\<^verbatim>\<open>ValueError\<close> is what a ring's constructor may answer to a value it cannot
  read). A raise is the value \<open>Inl e\<close> of the result type \<open>error + 'a\<close>.
\<close>

datatype error = ZeroDivisionError | TypeError | IndexError | ValueError

text \<open>
  Both modules are written against a duck-typed ring: the operators they apply to
  coefficients and remainders. The record lists exactly those operators:
  \<open>r_call\<close> is the ring's constructor \<^verbatim>\<open>ring(c)\<close>, \<open>r_zero\<close> and \<open>r_one\<close> are
  \<^verbatim>\<open>ring.zero()\<close> and \<^verbatim>\<open>ring.one()\<close>, \<open>r_bool\<close> is \<^verbatim>\<open>__bool__\<close> (true when
  not zero), \<open>r_eq\<close> is \<^verbatim>\<open>==\<close>, \<open>r_add\<close>, \<open>r_neg\<close>, \<open>r_mul\<close> are \<^verbatim>\<open>+\<close>, unary
  \<^verbatim>\<open>-\<close> and \<^verbatim>\<open>*\<close>, and \<open>r_divmod\<close> is \<^verbatim>\<open>__divmod__\<close>, division with
  remainder, which may raise.
\<close>

record ('r, 'a) ring =
  r_call :: "'r \<Rightarrow> error + 'a"
  r_zero :: 'a
  r_one :: 'a
  r_bool :: "'a \<Rightarrow> bool"
  r_eq :: "'a \<Rightarrow> 'a \<Rightarrow> bool"
  r_add :: "'a \<Rightarrow> 'a \<Rightarrow> 'a"
  r_neg :: "'a \<Rightarrow> 'a"
  r_mul :: "'a \<Rightarrow> 'a \<Rightarrow> 'a"
  r_divmod :: "'a \<Rightarrow> 'a \<Rightarrow> error + 'a \<times> 'a"

text \<open>\<^verbatim>\<open>x % m\<close>: the remainder of the division with remainder.\<close>

definition r_mod :: "('r, 'a) ring \<Rightarrow> 'a \<Rightarrow> 'a \<Rightarrow> error + 'a" where
  "r_mod R x m = (case r_divmod R x m of Inl e \<Rightarrow> Inl e | Inr (q, r) \<Rightarrow> Inr r)"

text \<open>
  Modelled from the spec: the integer ring is an external collaborator of the two
  modules and not part of them. Its elements are Python integers: unbounded, with
  floor division, a remainder that takes the sign of the divisor, and
  \<^verbatim>\<open>ZeroDivisionError\<close> on a zero divisor.
\<close>

definition Integers :: "(int, int) ring" where
  "Integers = \<lparr> r_call = (\<lambda>c. Inr c), r_zero = 0, r_one = 1,
     r_bool = (\<lambda>x. x \<noteq> 0), r_eq = (\<lambda>x y. x = y),
     r_add = (\<lambda>x y. x + y), r_neg = (\<lambda>x. - x), r_mul = (\<lambda>x y. x * y),
     r_divmod = (\<lambda>x m. if m = 0 then Inl ZeroDivisionError else Inr (x div m, x mod m)) \<rparr>"

section \<open>polynomials/naive.py\<close>

subsection \<open>ListPolynomial\<close>

record 'a ListPolynomial =
  zero_coefficient :: 'a
  coefficients :: "'a list"

text \<open>
  \<^verbatim>\<open>__remove_leading_zeros\<close>: pop the last coefficient while more than one is left
  and the last one equals the zero coefficient.
\<close>

function remove_leading_zeros :: "('r, 'a) ring \<Rightarrow> 'a \<Rightarrow> 'a list \<Rightarrow> 'a list" where
  "remove_leading_zeros R z cs =
     (if length cs > 1 \<and> r_eq R (last cs) z
      then remove_leading_zeros R z (butlast cs)
      else cs)"
  by pat_completeness auto
termination
  by (relation "measure (\<lambda>(R, z, cs). length cs)") auto

declare remove_leading_zeros.simps [simp del]

definition ListPolynomial_init :: "('r, 'a) ring \<Rightarrow> 'a \<Rightarrow> 'a list \<Rightarrow> 'a ListPolynomial" where
  "ListPolynomial_init R zero coefficient_list =
     \<lparr> zero_coefficient = zero,
       coefficients = remove_leading_zeros R zero coefficient_list \<rparr>"

definition degree :: "'a ListPolynomial \<Rightarrow> int" where
  "degree self = int (length (coefficients self)) - 1"

text \<open>
  \<^verbatim>\<open>__getitem__\<close> is Python's list indexing: a negative index counts from the end,
  an index outside the list raises \<^verbatim>\<open>IndexError\<close>.
\<close>

definition getitem :: "'a ListPolynomial \<Rightarrow> int \<Rightarrow> error + 'a" where
  "getitem self index =
     (let n = int (length (coefficients self));
          j = (if index < 0 then n + index else index)
      in if 0 \<le> j \<and> j < n then Inr (coefficients self ! nat j) else Inl IndexError)"

definition ListPolynomial_eq :: "('r, 'a) ring \<Rightarrow> 'a ListPolynomial \<Rightarrow> 'a ListPolynomial \<Rightarrow> bool" where
  "ListPolynomial_eq R self other =
     (if degree self \<noteq> degree other then False
      else list_all (\<lambda>(x, y). r_eq R x y) (zip (coefficients self) (coefficients other)))"

definition pad_and_zip :: "'a list \<Rightarrow> 'a list \<Rightarrow> 'a \<Rightarrow> ('a \<times> 'a) list" where
  "pad_and_zip list1 list2 padding_element =
     (let max_length = max (length list1) (length list2);
          padded_list1 = list1 @ replicate (max_length - length list1) padding_element;
          padded_list2 = list2 @ replicate (max_length - length list2) padding_element
      in zip padded_list1 padded_list2)"

definition ListPolynomial_add :: "('r, 'a) ring \<Rightarrow> 'a ListPolynomial \<Rightarrow> 'a ListPolynomial \<Rightarrow> 'a ListPolynomial" where
  "ListPolynomial_add R self other =
     (let coefficient_pairs =
            pad_and_zip (coefficients self) (coefficients other) (zero_coefficient self);
          coefficient_sums = map (\<lambda>(x, y). r_add R x y) coefficient_pairs
      in ListPolynomial_init R (zero_coefficient self) coefficient_sums)"

definition ListPolynomial_neg :: "('r, 'a) ring \<Rightarrow> 'a ListPolynomial \<Rightarrow> 'a ListPolynomial" where
  "ListPolynomial_neg R self =
     ListPolynomial_init R (zero_coefficient self) (map (r_neg R) (coefficients self))"

text \<open>
  \<^verbatim>\<open>result[i + j] += x * y\<close>: the slot is read, added to and written back; a slot
  outside the list raises \<^verbatim>\<open>IndexError\<close>.
\<close>

definition add_at :: "('r, 'a) ring \<Rightarrow> 'a list \<Rightarrow> nat \<Rightarrow> 'a \<Rightarrow> error + 'a list" where
  "add_at R result k v =
     (if k < length result then Inr (result[k := r_add R (result ! k) v])
      else Inl IndexError)"

text \<open>The inner loop \<^verbatim>\<open>for j, y in enumerate(other.__coefficients)\<close>, from \<open>j\<close> on.\<close>

fun mul_inner :: "('r, 'a) ring \<Rightarrow> nat \<Rightarrow> 'a \<Rightarrow> nat \<Rightarrow> 'a list \<Rightarrow> 'a list \<Rightarrow> error + 'a list" where
  "mul_inner R i x j [] result = Inr result"
| "mul_inner R i x j (y # ys) result =
     (case add_at R result (i + j) (r_mul R x y) of
        Inl e \<Rightarrow> Inl e
      | Inr result' \<Rightarrow> mul_inner R i x (Suc j) ys result')"

text \<open>The outer loop \<^verbatim>\<open>for i, x in enumerate(self.__coefficients)\<close>, from \<open>i\<close> on.\<close>

fun mul_outer :: "('r, 'a) ring \<Rightarrow> nat \<Rightarrow> 'a list \<Rightarrow> 'a list \<Rightarrow> 'a list \<Rightarrow> error + 'a list" where
  "mul_outer R i [] ds result = Inr result"
| "mul_outer R i (x # xs) ds result =
     (case mul_inner R i x 0 ds result of
        Inl e \<Rightarrow> Inl e
      | Inr result' \<Rightarrow> mul_outer R (Suc i) xs ds result')"

text \<open>
  The list \<^verbatim>\<open>result\<close> of \<^verbatim>\<open>__mul__\<close> when the loops are done, before the constructor
  normalizes it. \<^verbatim>\<open>[z] * n\<close> is the empty list for a negative \<open>n\<close>.
\<close>

definition mul_result :: "('r, 'a) ring \<Rightarrow> 'a ListPolynomial \<Rightarrow> 'a ListPolynomial \<Rightarrow> error + 'a list" where
  "mul_result R self other =
     mul_outer R 0 (coefficients self) (coefficients other)
       (replicate (nat (degree self + degree other + 2)) (zero_coefficient self))"

definition ListPolynomial_mul :: "('r, 'a) ring \<Rightarrow> 'a ListPolynomial \<Rightarrow> 'a ListPolynomial \<Rightarrow> error + 'a ListPolynomial" where
  "ListPolynomial_mul R self other =
     (case mul_result R self other of
        Inl e \<Rightarrow> Inl e
      | Inr result \<Rightarrow> Inr (ListPolynomial_init R (zero_coefficient self) result))"

definition ListPolynomial_multiplicative_inverse :: "'a ListPolynomial \<Rightarrow> error + 'a ListPolynomial" where
  "ListPolynomial_multiplicative_inverse self = Inl TypeError"

subsection \<open>PolynomialRing\<close>

text \<open>The list comprehension \<^verbatim>\<open>[ring(c) for c in coefficient_list]\<close>: the first
  coefficient the ring's constructor refuses ends it.\<close>

fun call_all :: "('r, 'a) ring \<Rightarrow> 'r list \<Rightarrow> error + 'a list" where
  "call_all R [] = Inr []"
| "call_all R (c # cs) =
     (case r_call R c of
        Inl e \<Rightarrow> Inl e
      | Inr x \<Rightarrow> (case call_all R cs of Inl e \<Rightarrow> Inl e | Inr xs \<Rightarrow> Inr (x # xs)))"

definition PolynomialRing_call :: "('r, 'a) ring \<Rightarrow> 'r list \<Rightarrow> error + 'a ListPolynomial" where
  "PolynomialRing_call coefficient_ring coefficient_list =
     (case call_all coefficient_ring coefficient_list of
        Inl e \<Rightarrow> Inl e
      | Inr cs \<Rightarrow> Inr (ListPolynomial_init coefficient_ring (r_zero coefficient_ring) cs))"

section \<open>pyschoof/rings/quotients/naive.py\<close>

text \<open>
  \<^verbatim>\<open>QuotientRing\<close> is a template class: an instance of the template fixes the source
  ring \<^verbatim>\<open>_ring\<close> and the modulus \<^verbatim>\<open>_modulus\<close>. They are the parameters \<open>R\<close> and
  \<open>m\<close> of every function below. An element stores its remainder only. The class
  decorator \<^verbatim>\<open>operand_casting\<close> (of \<^verbatim>\<open>support.operators\<close>, not among the sources)
  hands the other operand of a binary operator to the constructor first when it is
  not an element of the class; the operators below take operands that are elements.
\<close>

record 'a QuotientRing =
  remainder :: 'a

text \<open>
  What the constructor is given: an element of the same class, an element of the
  modulus' class (the source ring), or anything else, which it hands to the source
  ring's constructor.
\<close>

datatype ('r, 'a) representative =
  Element "'a QuotientRing"
  | SourceElement 'a
  | Other 'r

definition QuotientRing_init :: "('r, 'a) ring \<Rightarrow> 'a \<Rightarrow> ('r, 'a) representative \<Rightarrow> error + 'a QuotientRing" where
  "QuotientRing_init R m representative =
     (case representative of
        Element q \<Rightarrow> Inr \<lparr> remainder = remainder q \<rparr>
      | SourceElement x \<Rightarrow>
          (case r_mod R x m of Inl e \<Rightarrow> Inl e | Inr r \<Rightarrow> Inr \<lparr> remainder = r \<rparr>)
      | Other c \<Rightarrow>
          (case r_call R c of
             Inl e \<Rightarrow> Inl e
           | Inr x \<Rightarrow> (case r_mod R x m of Inl e \<Rightarrow> Inl e | Inr r \<Rightarrow> Inr \<lparr> remainder = r \<rparr>)))"

definition QuotientRing_bool :: "('r, 'a) ring \<Rightarrow> 'a QuotientRing \<Rightarrow> bool" where
  "QuotientRing_bool R self = r_bool R (remainder self)"

definition QuotientRing_eq :: "('r, 'a) ring \<Rightarrow> 'a QuotientRing \<Rightarrow> 'a QuotientRing \<Rightarrow> bool" where
  "QuotientRing_eq R self other = r_eq R (remainder self) (remainder other)"

definition QuotientRing_add :: "('r, 'a) ring \<Rightarrow> 'a \<Rightarrow> 'a QuotientRing \<Rightarrow> 'a QuotientRing \<Rightarrow> error + 'a QuotientRing" where
  "QuotientRing_add R m self other =
     QuotientRing_init R m (SourceElement (r_add R (remainder self) (remainder other)))"

definition QuotientRing_neg :: "('r, 'a) ring \<Rightarrow> 'a \<Rightarrow> 'a QuotientRing \<Rightarrow> error + 'a QuotientRing" where
  "QuotientRing_neg R m self =
     QuotientRing_init R m (SourceElement (r_neg R (remainder self)))"

definition QuotientRing_mul :: "('r, 'a) ring \<Rightarrow> 'a \<Rightarrow> 'a QuotientRing \<Rightarrow> 'a QuotientRing \<Rightarrow> error + 'a QuotientRing" where
  "QuotientRing_mul R m self other =
     QuotientRing_init R m (SourceElement (r_mul R (remainder self) (remainder other)))"

text \<open>
  \<^verbatim>\<open>extended_euclidean_algorithm\<close> is imported from \<^verbatim>\<open>support.rings\<close>, which is not
  among the sources: it is the parameter \<open>eea\<close>, a function that returns the triple
  \<^verbatim>\<open>(inverse, ignore, gcd)\<close> or raises.
\<close>

type_synonym 'a euclid = "'a \<Rightarrow> 'a \<Rightarrow> error + 'a \<times> 'a \<times> 'a"

definition QuotientRing_multiplicative_inverse :: "('r, 'a) ring \<Rightarrow> 'a \<Rightarrow> 'a euclid \<Rightarrow> 'a QuotientRing \<Rightarrow> error + 'a QuotientRing" where
  "QuotientRing_multiplicative_inverse R m eea self =
     (if \<not> r_bool R (remainder self) then Inl ZeroDivisionError
      else
        (case eea (remainder self) m of
           Inl e \<Rightarrow> Inl e
         | Inr (inverse', ignore, gcd') \<Rightarrow>
             if r_eq R gcd' (r_one R) then QuotientRing_init R m (SourceElement inverse')
             else Inl ZeroDivisionError))"

definition QuotientRing_truediv :: "('r, 'a) ring \<Rightarrow> 'a \<Rightarrow> 'a euclid \<Rightarrow> 'a QuotientRing \<Rightarrow> 'a QuotientRing \<Rightarrow> error + 'a QuotientRing" where
  "QuotientRing_truediv R m eea self other =
     (case QuotientRing_multiplicative_inverse R m eea other of
        Inl e \<Rightarrow> Inl e
      | Inr inverse' \<Rightarrow> QuotientRing_mul R m self inverse')"

definition QuotientRing_rtruediv :: "('r, 'a) ring \<Rightarrow> 'a \<Rightarrow> 'a euclid \<Rightarrow> 'a QuotientRing \<Rightarrow> 'a QuotientRing \<Rightarrow> error + 'a QuotientRing" where
  "QuotientRing_rtruediv R m eea self other =
     (case QuotientRing_multiplicative_inverse R m eea self of
        Inl e \<Rightarrow> Inl e
      | Inr inverse' \<Rightarrow> QuotientRing_mul R m other inverse')"

definition QuotientRing_zero :: "('r, 'a) ring \<Rightarrow> 'a \<Rightarrow> error + 'a QuotientRing" where
  "QuotientRing_zero R m = QuotientRing_init R m (SourceElement (r_zero R))"

definition QuotientRing_one :: "('r, 'a) ring \<Rightarrow> 'a \<Rightarrow> error + 'a QuotientRing" where
  "QuotientRing_one R m = QuotientRing_init R m (SourceElement (r_one R))"

text \<open>
  Modelled from the spec: \<^verbatim>\<open>extended_euclidean_algorithm\<close> of \<^verbatim>\<open>support.rings\<close> is
  missing from the sources. The spec describes it as repeated division with
  remainder that tracks the Bezout coefficients and returns \<open>(x, y, g)\<close> with
  \<open>a * x + b * y = g\<close>. This is that loop on Python integers: \<open>(x, y)\<close> are the
  coefficients of \<open>a\<close>, \<open>(x', y')\<close> those of \<open>b\<close>.
\<close>

function eea_loop :: "int \<Rightarrow> int \<Rightarrow> int \<Rightarrow> int \<Rightarrow> int \<Rightarrow> int \<Rightarrow> int \<times> int \<times> int" where
  "eea_loop a b x y x' y' =
     (if b = 0 then (x, y, a)
      else eea_loop b (a mod b) x' y' (x - (a div b) * x') (y - (a div b) * y'))"
  by pat_completeness auto
termination
  by (relation "measure (\<lambda>(a, b, x, y, x', y'). nat \<bar>b\<bar>)")
     (auto simp: abs_mod_less)

declare eea_loop.simps [simp del]

definition extended_euclidean_algorithm :: "int euclid" where
  "extended_euclidean_algorithm a b = Inr (eea_loop a b 1 0 0 1)"


section \<open>The two classes on a store\<close>

text \<open>
  A Python list is a mutable object, and a \<^verbatim>\<open>ListPolynomial\<close> holds a reference to
  its list: the constructor keeps the very list it is given and
  \<^verbatim>\<open>__remove_leading_zeros\<close> pops from it in place. The store maps the address of a
  list object to its content; \<open>next_list\<close> is the first address not in use.
\<close>

record 'a store =
  list_at :: "nat \<Rightarrow> 'a list"
  next_list :: nat

record 'a ListPolynomial_object =
  object_zero :: 'a
  object_coefficients :: nat

text \<open>The polynomial an object stands for in a store.\<close>

definition polynomial_at :: "'a store \<Rightarrow> 'a ListPolynomial_object \<Rightarrow> 'a ListPolynomial" where
  "polynomial_at s p =
     \<lparr> zero_coefficient = object_zero p, coefficients = list_at s (object_coefficients p) \<rparr>"

text \<open>A new list object: a list display, a comprehension or \<^verbatim>\<open>[z] * n\<close>.\<close>

definition allocate :: "'a list \<Rightarrow> 'a store \<Rightarrow> nat \<times> 'a store" where
  "allocate xs s =
     (next_list s, s\<lparr> list_at := (list_at s)(next_list s := xs), next_list := Suc (next_list s) \<rparr>)"

text \<open>\<^verbatim>\<open>__remove_leading_zeros\<close> on the list at address \<open>a\<close>: \<^verbatim>\<open>pop()\<close> changes it in place.\<close>

function remove_leading_zeros_in_place :: "('r, 'a) ring \<Rightarrow> 'a \<Rightarrow> nat \<Rightarrow> 'a store \<Rightarrow> 'a store" where
  "remove_leading_zeros_in_place R z a s =
     (if length (list_at s a) > 1 \<and> r_eq R (last (list_at s a)) z
      then remove_leading_zeros_in_place R z a (s\<lparr> list_at := (list_at s)(a := butlast (list_at s a)) \<rparr>)
      else s)"
  by pat_completeness auto
termination
  by (relation "measure (\<lambda>(R, z, a, s). length (list_at s a))") auto

declare remove_leading_zeros_in_place.simps [simp del]

text \<open>The constructor: the new object refers to the list at \<open>a\<close>, which it normalizes.\<close>

definition ListPolynomial_init_in_store :: "('r, 'a) ring \<Rightarrow> 'a \<Rightarrow> nat \<Rightarrow> 'a store \<Rightarrow> 'a ListPolynomial_object \<times> 'a store" where
  "ListPolynomial_init_in_store R zero a s =
     (\<lparr> object_zero = zero, object_coefficients = a \<rparr>, remove_leading_zeros_in_place R zero a s)"

definition ListPolynomial_add_in_store :: "('r, 'a) ring \<Rightarrow> 'a ListPolynomial_object \<Rightarrow> 'a ListPolynomial_object \<Rightarrow> 'a store \<Rightarrow> 'a ListPolynomial_object \<times> 'a store" where
  "ListPolynomial_add_in_store R self other s =
     (let coefficient_pairs =
            pad_and_zip (list_at s (object_coefficients self)) (list_at s (object_coefficients other))
              (object_zero self);
          (coefficient_sums, s') = allocate (map (\<lambda>(x, y). r_add R x y) coefficient_pairs) s
      in ListPolynomial_init_in_store R (object_zero self) coefficient_sums s')"

definition ListPolynomial_neg_in_store :: "('r, 'a) ring \<Rightarrow> 'a ListPolynomial_object \<Rightarrow> 'a store \<Rightarrow> 'a ListPolynomial_object \<times> 'a store" where
  "ListPolynomial_neg_in_store R self s =
     (let (negated, s') = allocate (map (r_neg R) (list_at s (object_coefficients self))) s
      in ListPolynomial_init_in_store R (object_zero self) negated s')"

text \<open>\<^verbatim>\<open>result[i + j] += x * y\<close> on the list at address \<open>a\<close>.\<close>

definition add_at_in_place :: "('r, 'a) ring \<Rightarrow> nat \<Rightarrow> nat \<Rightarrow> 'a \<Rightarrow> 'a store \<Rightarrow> error + 'a store" where
  "add_at_in_place R a k v s =
     (if k < length (list_at s a)
      then Inr (s\<lparr> list_at := (list_at s)(a := (list_at s a)[k := r_add R (list_at s a ! k) v]) \<rparr>)
      else Inl IndexError)"

fun mul_inner_in_place :: "('r, 'a) ring \<Rightarrow> nat \<Rightarrow> nat \<Rightarrow> 'a \<Rightarrow> nat \<Rightarrow> 'a list \<Rightarrow> 'a store \<Rightarrow> error + 'a store" where
  "mul_inner_in_place R a i x j [] s = Inr s"
| "mul_inner_in_place R a i x j (y # ys) s =
     (case add_at_in_place R a (i + j) (r_mul R x y) s of
        Inl e \<Rightarrow> Inl e
      | Inr s' \<Rightarrow> mul_inner_in_place R a i x (Suc j) ys s')"

fun mul_outer_in_place :: "('r, 'a) ring \<Rightarrow> nat \<Rightarrow> nat \<Rightarrow> 'a list \<Rightarrow> 'a list \<Rightarrow> 'a store \<Rightarrow> error + 'a store" where
  "mul_outer_in_place R a i [] ds s = Inr s"
| "mul_outer_in_place R a i (x # xs) ds s =
     (case mul_inner_in_place R a i x 0 ds s of
        Inl e \<Rightarrow> Inl e
      | Inr s' \<Rightarrow> mul_outer_in_place R a (Suc i) xs ds s')"

text \<open>
  \<^verbatim>\<open>__mul__\<close>: the list \<^verbatim>\<open>result\<close> is a new object, the loops run over the
  coefficients of the two operands and write to \<^verbatim>\<open>result\<close> only, and the constructor
  receives \<^verbatim>\<open>result\<close> itself.
\<close>

definition ListPolynomial_mul_in_store :: "('r, 'a) ring \<Rightarrow> 'a ListPolynomial_object \<Rightarrow> 'a ListPolynomial_object \<Rightarrow> 'a store \<Rightarrow> error + 'a ListPolynomial_object \<times> 'a store" where
  "ListPolynomial_mul_in_store R self other s =
     (let (result, s') =
            allocate (replicate (nat (degree (polynomial_at s self) + degree (polynomial_at s other) + 2))
              (object_zero self)) s
      in case mul_outer_in_place R result 0 (list_at s' (object_coefficients self))
                (list_at s' (object_coefficients other)) s' of
           Inl e \<Rightarrow> Inl e
         | Inr s'' \<Rightarrow> Inr (ListPolynomial_init_in_store R (object_zero self) result s''))"

text \<open>
  A quotient-ring element is an object with one attribute, the remainder, which only
  \<^verbatim>\<open>__init__\<close> assigns, on the object under construction. The store maps the address
  of an element to its remainder.
\<close>

record 'a element_store =
  remainders :: "nat \<Rightarrow> 'a"
  next_element :: nat

definition element_at :: "'a element_store \<Rightarrow> nat \<Rightarrow> 'a QuotientRing" where
  "element_at s a = \<lparr> remainder = remainders s a \<rparr>"

text \<open>\<^verbatim>\<open>self.__class__(...)\<close>: a new object, whose remainder the constructor computes.\<close>

definition new_element :: "error + 'a QuotientRing \<Rightarrow> 'a element_store \<Rightarrow> error + nat \<times> 'a element_store" where
  "new_element constructed_value s =
     (case constructed_value of
        Inl e \<Rightarrow> Inl e
      | Inr q \<Rightarrow>
          Inr (next_element s,
               s\<lparr> remainders := (remainders s)(next_element s := remainder q),
                  next_element := Suc (next_element s) \<rparr>))"

definition QuotientRing_add_in_store :: "('r, 'a) ring \<Rightarrow> 'a \<Rightarrow> nat \<Rightarrow> nat \<Rightarrow> 'a element_store \<Rightarrow> error + nat \<times> 'a element_store" where
  "QuotientRing_add_in_store R m self other s =
     new_element
       (QuotientRing_init R m (SourceElement (r_add R (remainders s self) (remainders s other)))) s"

definition QuotientRing_neg_in_store :: "('r, 'a) ring \<Rightarrow> 'a \<Rightarrow> nat \<Rightarrow> 'a element_store \<Rightarrow> error + nat \<times> 'a element_store" where
  "QuotientRing_neg_in_store R m self s =
     new_element (QuotientRing_init R m (SourceElement (r_neg R (remainders s self)))) s"

definition QuotientRing_mul_in_store :: "('r, 'a) ring \<Rightarrow> 'a \<Rightarrow> nat \<Rightarrow> nat \<Rightarrow> 'a element_store \<Rightarrow> error + nat \<times> 'a element_store" where
  "QuotientRing_mul_in_store R m self other s =
     new_element
       (QuotientRing_init R m (SourceElement (r_mul R (remainders s self) (remainders s other)))) s"

section \<open>Predicates of the properties\<close>

text \<open>
  The normalization invariant of a polynomial: the coefficient sequence has at least one
  element, and its last element is not the zero coefficient unless it is the only one.
\<close>

definition normalized :: "('r, 'a) ring \<Rightarrow> 'a ListPolynomial \<Rightarrow> bool" where
  "normalized R p \<longleftrightarrow>
     1 \<le> length (coefficients p)
     \<and> (length (coefficients p) = 1 \<or> \<not> r_eq R (last (coefficients p)) (zero_coefficient p))"

text \<open>
  The polynomials the module produces from non-empty coefficient lists: by the
  constructor of the class, by the constructor of the ring, and by addition, negation
  and multiplication of such polynomials.
\<close>

inductive produced :: "('r, 'a) ring \<Rightarrow> 'a ListPolynomial \<Rightarrow> bool" for R where
  by_init: "coefficient_list \<noteq> [] \<Longrightarrow> produced R (ListPolynomial_init R z coefficient_list)"
| by_call: "coefficient_list \<noteq> [] \<Longrightarrow> PolynomialRing_call R coefficient_list = Inr p \<Longrightarrow> produced R p"
| by_add: "produced R p \<Longrightarrow> produced R q \<Longrightarrow> produced R (ListPolynomial_add R p q)"
| by_neg: "produced R p \<Longrightarrow> produced R (ListPolynomial_neg R p)"
| by_mul: "produced R p \<Longrightarrow> produced R q \<Longrightarrow> ListPolynomial_mul R p q = Inr r \<Longrightarrow> produced R r"

text \<open>
  The spec's description of a slot of the product: slot \<open>k\<close> holds the sum of
  \<open>p[i] * q[j]\<close> over all \<open>i + j = k\<close>. The sum starts from the zero coefficient
  and runs over \<open>i\<close> in ascending order, with the ring's own addition.
\<close>

definition convolution_slot :: "('r, 'a) ring \<Rightarrow> 'a \<Rightarrow> 'a list \<Rightarrow> 'a list \<Rightarrow> nat \<Rightarrow> 'a" where
  "convolution_slot R z cs ds k =
     foldl (r_add R) z
       (map (\<lambda>i. r_mul R (cs ! i) (ds ! (k - i)))
          (filter (\<lambda>i. i \<le> k \<and> k - i < length ds) [0..<length cs]))"

text \<open>
  The elements of a quotient ring that the class can produce: by the constructor, from
  a source-ring element, from any other value or from an element produced before, and
  by the operations of the class on elements produced before.
\<close>

inductive constructed :: "('r, 'a) ring \<Rightarrow> 'a \<Rightarrow> 'a euclid \<Rightarrow> 'a QuotientRing \<Rightarrow> bool"
  for R m eea where
  of_source: "QuotientRing_init R m (SourceElement x) = Inr q \<Longrightarrow> constructed R m eea q"
| of_other: "QuotientRing_init R m (Other c) = Inr q \<Longrightarrow> constructed R m eea q"
| of_element: "constructed R m eea p \<Longrightarrow> QuotientRing_init R m (Element p) = Inr q
    \<Longrightarrow> constructed R m eea q"
| of_add: "constructed R m eea a \<Longrightarrow> constructed R m eea b \<Longrightarrow> QuotientRing_add R m a b = Inr q
    \<Longrightarrow> constructed R m eea q"
| of_neg: "constructed R m eea a \<Longrightarrow> QuotientRing_neg R m a = Inr q \<Longrightarrow> constructed R m eea q"
| of_mul: "constructed R m eea a \<Longrightarrow> constructed R m eea b \<Longrightarrow> QuotientRing_mul R m a b = Inr q
    \<Longrightarrow> constructed R m eea q"
| of_truediv: "constructed R m eea a \<Longrightarrow> constructed R m eea b
    \<Longrightarrow> QuotientRing_truediv R m eea a b = Inr q \<Longrightarrow> constructed R m eea q"
| of_rtruediv: "constructed R m eea a \<Longrightarrow> constructed R m eea b
    \<Longrightarrow> QuotientRing_rtruediv R m eea a b = Inr q \<Longrightarrow> constructed R m eea q"
| of_inverse: "constructed R m eea a \<Longrightarrow> QuotientRing_multiplicative_inverse R m eea a = Inr q
    \<Longrightarrow> constructed R m eea q"
| of_zero: "QuotientRing_zero R m = Inr q \<Longrightarrow> constructed R m eea q"
| of_one: "QuotientRing_one R m = Inr q \<Longrightarrow> constructed R m eea q"

text \<open>A stored remainder is reduced when reducing it again gives it back.\<close>

definition reduced :: "('r, 'a) ring \<Rightarrow> 'a \<Rightarrow> 'a QuotientRing \<Rightarrow> bool" where
  "reduced R m q \<longleftrightarrow> r_mod R (remainder q) m = Inr (remainder q)"

text \<open>
  The remainders of the source ring are canonical for the modulus \<open>m\<close>: a remainder is
  its own remainder.
\<close>

definition canonical_remainder :: "('r, 'a) ring \<Rightarrow> 'a \<Rightarrow> bool" where
  "canonical_remainder R m \<longleftrightarrow> (\<forall>x r. r_mod R x m = Inr r \<longrightarrow> r_mod R r m = Inr r)"

text \<open>
  The source ring is a commutative ring: its operators are the operations of a type of
  commutative rings with one, and its equality is equality of the elements.
\<close>

definition commutative_ring :: "('r, 'a :: comm_ring_1) ring \<Rightarrow> bool" where
  "commutative_ring R \<longleftrightarrow>
     r_zero R = 0 \<and> r_one R = 1 \<and> r_bool R = (\<lambda>x. x \<noteq> 0) \<and> r_eq R = (\<lambda>x y. x = y)
     \<and> r_add R = (\<lambda>x y. x + y) \<and> r_neg R = (\<lambda>x. - x) \<and> r_mul R = (\<lambda>x y. x * y)"

text \<open>
  Division with remainder by the modulus \<open>m\<close>: it never raises, the dividend is the
  quotient times \<open>m\<close> plus the remainder, and two elements that differ by a multiple of
  \<open>m\<close> have the same remainder.
\<close>

definition division_with_remainder :: "('r, 'a :: comm_ring_1) ring \<Rightarrow> 'a \<Rightarrow> bool" where
  "division_with_remainder R m \<longleftrightarrow>
     (\<forall>x. \<exists>q r. r_divmod R x m = Inr (q, r) \<and> x = q * m + r)
     \<and> (\<forall>x y k. x = y + k * m \<longrightarrow> r_mod R x m = r_mod R y m)"

section \<open>Properties\<close>

lemma remove_leading_zeros_length1: "length cs \<le> 1 \<Longrightarrow> remove_leading_zeros R z cs = cs"
  by (simp add: remove_leading_zeros.simps)

subsection \<open>Polynomials: inversion, the empty coefficient list, indexing\<close>

text \<open>
  C8: for every polynomial \<open>p\<close>, \<^verbatim>\<open>p.multiplicative_inverse()\<close> fails, whatever the
  value of \<open>p\<close>. The exception the method raises is Python's \<^verbatim>\<open>TypeError\<close>; it is
  the polynomial's error for a missing inverse.
\<close>

theorem ListPolynomial_multiplicative_inverse_fails:
  "ListPolynomial_multiplicative_inverse p = Inl TypeError"
  by (simp add: ListPolynomial_multiplicative_inverse_def)

text \<open>
  C6, as stated, is false: the constructor of the polynomial ring has no check of the
  number of coefficients, and the normalization loop does not run on an empty list.
  Over the integers the call with no coefficient returns a polynomial.
\<close>

theorem PolynomialRing_call_empty_counterexample:
  "PolynomialRing_call Integers [] = Inr \<lparr> zero_coefficient = 0, coefficients = [] \<rparr>
   \<and> \<not> isl (PolynomialRing_call Integers [])"
  by (simp add: PolynomialRing_call_def ListPolynomial_init_def Integers_def
      remove_leading_zeros_length1)

text \<open>
  C6, amended: called with an empty coefficient list, the constructor of the
  polynomial ring does not fail. It returns the polynomial whose coefficient
  sequence is empty, of degree \<open>-1\<close>.
\<close>

theorem PolynomialRing_call_empty:
  "PolynomialRing_call R [] = Inr \<lparr> zero_coefficient = r_zero R, coefficients = [] \<rparr>
   \<and> degree \<lparr> zero_coefficient = r_zero R, coefficients = [] \<rparr> = - 1"
  by (simp add: PolynomialRing_call_def ListPolynomial_init_def degree_def
      remove_leading_zeros_length1)

text \<open>
  C7, as stated, is false: \<^verbatim>\<open>__getitem__\<close> indexes the stored list, so an index
  above the degree raises \<^verbatim>\<open>IndexError\<close>. For \<open>x^2 + 2x + 5\<close> over the integers,
  index 3 fails.
\<close>

theorem getitem_counterexample:
  "PolynomialRing_call Integers [5, 2, 1] = Inr \<lparr> zero_coefficient = 0, coefficients = [5, 2, 1] \<rparr>
   \<and> getitem \<lparr> zero_coefficient = 0, coefficients = [5, 2, 1 :: int] \<rparr> 3 = Inl IndexError"
  by (simp add: PolynomialRing_call_def ListPolynomial_init_def Integers_def getitem_def
      remove_leading_zeros.simps)

text \<open>
  C7, amended: for every polynomial \<open>p\<close> and every index \<open>i\<close> greater than the stored
  degree of \<open>p\<close>, \<^verbatim>\<open>coefficient_at(i)\<close> fails with \<^verbatim>\<open>IndexError\<close>; for an index from
  \<open>0\<close> to the degree it returns the stored coefficient.
\<close>

theorem getitem_index:
  "(degree p < i \<longrightarrow> getitem p i = Inl IndexError)
   \<and> (0 \<le> i \<and> i \<le> degree p \<longrightarrow> getitem p i = Inr (coefficients p ! nat i))"
  by (auto simp: getitem_def degree_def Let_def)

theorem getitem_index_witness:
  "degree \<lparr> zero_coefficient = 0, coefficients = [5, 2, 1 :: int] \<rparr> < 3
   \<and> getitem \<lparr> zero_coefficient = 0, coefficients = [5, 2, 1 :: int] \<rparr> 3 = Inl IndexError
   \<and> 1 \<le> degree \<lparr> zero_coefficient = 0, coefficients = [5, 2, 1 :: int] \<rparr>
   \<and> getitem \<lparr> zero_coefficient = 0, coefficients = [5, 2, 1 :: int] \<rparr> 1 = Inr 2"
  using getitem_index [of "\<lparr> zero_coefficient = 0, coefficients = [5, 2, 1 :: int] \<rparr>" 3]
    getitem_index [of "\<lparr> zero_coefficient = 0, coefficients = [5, 2, 1 :: int] \<rparr>" 1]
  by (simp add: degree_def)

subsection \<open>Polynomials: the normalization invariant\<close>

lemma remove_leading_zeros_nonempty: "cs \<noteq> [] \<Longrightarrow> remove_leading_zeros R z cs \<noteq> []"
proof (induction R z cs rule: remove_leading_zeros.induct)
  case (1 R z cs)
  show ?case
  proof (cases "length cs > 1 \<and> r_eq R (last cs) z")
    case True
    then have "butlast cs \<noteq> []" by (cases cs) auto
    then have "remove_leading_zeros R z (butlast cs) \<noteq> []" using "1.IH" True by blast
    moreover have "remove_leading_zeros R z cs = remove_leading_zeros R z (butlast cs)"
      using True by (subst remove_leading_zeros.simps) simp
    ultimately show ?thesis by simp
  next
    case False
    then have "remove_leading_zeros R z cs = cs"
      by (subst remove_leading_zeros.simps) auto
    with "1.prems" show ?thesis by simp
  qed
qed

lemma remove_leading_zeros_last:
  "r_eq R (last (remove_leading_zeros R z cs)) z \<Longrightarrow> length (remove_leading_zeros R z cs) \<le> 1"
proof (induction R z cs rule: remove_leading_zeros.induct)
  case (1 R z cs)
  show ?case
  proof (cases "length cs > 1 \<and> r_eq R (last cs) z")
    case True
    have eq: "remove_leading_zeros R z cs = remove_leading_zeros R z (butlast cs)"
      using True by (subst remove_leading_zeros.simps) simp
    from "1.prems" have "r_eq R (last (remove_leading_zeros R z (butlast cs))) z"
      by (simp add: eq)
    then have "length (remove_leading_zeros R z (butlast cs)) \<le> 1"
      using "1.IH" True by blast
    then show ?thesis by (simp add: eq)
  next
    case False
    have eq: "remove_leading_zeros R z cs = cs"
      using False by (subst remove_leading_zeros.simps) auto
    from "1.prems" have "r_eq R (last cs) z" by (simp add: eq)
    with False have "length cs \<le> 1" by auto
    then show ?thesis by (simp add: eq)
  qed
qed

lemma normalized_init:
  assumes "cs \<noteq> []"
  shows "normalized R (ListPolynomial_init R z cs)"
proof -
  let ?r = "remove_leading_zeros R z cs"
  have "?r \<noteq> []" using assms by (rule remove_leading_zeros_nonempty)
  then have len: "1 \<le> length ?r" by (cases ?r) simp_all
  have "length ?r = 1 \<or> \<not> r_eq R (last ?r) z"
  proof (cases "r_eq R (last ?r) z")
    case True
    then have "length ?r \<le> 1" by (rule remove_leading_zeros_last)
    with len show ?thesis by linarith
  next
    case False
    then show ?thesis by simp
  qed
  with len show ?thesis by (simp add: normalized_def ListPolynomial_init_def)
qed

lemma add_at_length: "add_at R result k v = Inr result' \<Longrightarrow> length result' = length result"
  by (auto simp: add_at_def split: if_splits)

lemma mul_inner_length: "mul_inner R i x j ys result = Inr result' \<Longrightarrow> length result' = length result"
  by (induction ys arbitrary: j result) (auto split: sum.splits dest: add_at_length)

lemma mul_outer_length: "mul_outer R i xs ds result = Inr result' \<Longrightarrow> length result' = length result"
  by (induction xs arbitrary: i result) (auto split: sum.splits dest: mul_inner_length)

lemma mul_result_length:
  "mul_result R p q = Inr result \<Longrightarrow> length result = length (coefficients p) + length (coefficients q)"
  by (auto simp: mul_result_def degree_def dest!: mul_outer_length)

lemma pad_and_zip_length: "length (pad_and_zip xs ys z) = max (length xs) (length ys)"
  by (simp add: pad_and_zip_def Let_def)

lemma produced_normalized: "produced R p \<Longrightarrow> normalized R p"
proof (induction rule: produced.induct)
  case (by_init coefficient_list z)
  then show ?case by (rule normalized_init)
next
  case (by_call coefficient_list p)
  then obtain cs where "call_all R coefficient_list = Inr cs" and p: "p = ListPolynomial_init R (r_zero R) cs"
    by (auto simp: PolynomialRing_call_def split: sum.splits)
  with by_call(1) have "cs \<noteq> []" by (cases coefficient_list) (auto split: sum.splits)
  then show ?case unfolding p by (rule normalized_init)
next
  case (by_add p q)
  then have "coefficients p \<noteq> []" by (auto simp: normalized_def)
  then have "length (pad_and_zip (coefficients p) (coefficients q) (zero_coefficient p)) \<noteq> 0"
    by (simp add: pad_and_zip_length)
  then have "map (\<lambda>(x, y). r_add R x y) (pad_and_zip (coefficients p) (coefficients q) (zero_coefficient p)) \<noteq> []"
    by (metis length_0_conv length_map)
  then show ?case unfolding ListPolynomial_add_def Let_def by (rule normalized_init)
next
  case (by_neg p)
  then have "map (r_neg R) (coefficients p) \<noteq> []" by (auto simp: normalized_def)
  then show ?case unfolding ListPolynomial_neg_def by (rule normalized_init)
next
  case (by_mul p q r)
  then obtain result where res: "mul_result R p q = Inr result" and r: "r = ListPolynomial_init R (zero_coefficient p) result"
    by (auto simp: ListPolynomial_mul_def split: sum.splits)
  from by_mul have "coefficients p \<noteq> []" by (auto simp: normalized_def)
  with mul_result_length [OF res] have "result \<noteq> []" by auto
  then show ?case unfolding r by (rule normalized_init)
qed

text \<open>
  C3, as stated, is false: the constructor, given an empty coefficient list, produces
  a polynomial with no coefficient at all, which breaks the first half of the
  invariant.
\<close>

theorem normalized_counterexample:
  "PolynomialRing_call Integers [] = Inr \<lparr> zero_coefficient = 0, coefficients = [] \<rparr>
   \<and> \<not> normalized Integers \<lparr> zero_coefficient = 0, coefficients = [] \<rparr>"
  by (simp add: PolynomialRing_call_def ListPolynomial_init_def Integers_def
      remove_leading_zeros_length1 normalized_def)

text \<open>
  C3, amended: every polynomial produced from a non-empty coefficient list by the
  constructor, or by add, neg or mul of polynomials so produced, satisfies the
  normalization invariant: its coefficient sequence has at least one element, and its
  highest-index element is not the zero coefficient unless it is the only element. In
  particular \<^verbatim>\<open>make(0)\<close> and \<^verbatim>\<open>make(0, 0, 0)\<close> are the same polynomial and
  \<^verbatim>\<open>make(0).equals(make(0, 0, 0))\<close> holds.
\<close>

theorem normalization_invariant:
  "(produced R p \<longrightarrow> normalized R p)
   \<and> PolynomialRing_call Integers [0] = Inr \<lparr> zero_coefficient = 0, coefficients = [0] \<rparr>
   \<and> PolynomialRing_call Integers [0, 0, 0] = Inr \<lparr> zero_coefficient = 0, coefficients = [0] \<rparr>
   \<and> ListPolynomial_eq Integers \<lparr> zero_coefficient = 0, coefficients = [0] \<rparr>
         \<lparr> zero_coefficient = 0, coefficients = [0] \<rparr>"
proof -
  have "PolynomialRing_call Integers [0] = Inr \<lparr> zero_coefficient = 0, coefficients = [0] \<rparr>"
    by (simp add: PolynomialRing_call_def ListPolynomial_init_def Integers_def
        remove_leading_zeros.simps)
  moreover have "PolynomialRing_call Integers [0, 0, 0] = Inr \<lparr> zero_coefficient = 0, coefficients = [0] \<rparr>"
    by (simp add: PolynomialRing_call_def ListPolynomial_init_def Integers_def
        remove_leading_zeros.simps)
  moreover have "ListPolynomial_eq Integers \<lparr> zero_coefficient = 0, coefficients = [0] \<rparr>
         \<lparr> zero_coefficient = 0, coefficients = [0] \<rparr>"
    by (simp add: ListPolynomial_eq_def degree_def Integers_def)
  ultimately show ?thesis using produced_normalized [of R p] by blast
qed

theorem normalization_invariant_witness:
  "produced Integers \<lparr> zero_coefficient = 0, coefficients = [5, 2, 1] \<rparr>
   \<and> normalized Integers \<lparr> zero_coefficient = 0, coefficients = [5, 2, 1] \<rparr>"
proof -
  have "PolynomialRing_call Integers [5, 2, 1] = Inr \<lparr> zero_coefficient = 0, coefficients = [5, 2, 1] \<rparr>"
    by (simp add: PolynomialRing_call_def ListPolynomial_init_def Integers_def
        remove_leading_zeros.simps)
  then have "produced Integers \<lparr> zero_coefficient = 0, coefficients = [5, 2, 1] \<rparr>"
    by (rule produced.by_call [rotated]) simp
  with normalization_invariant [of Integers "\<lparr> zero_coefficient = 0, coefficients = [5, 2, 1] \<rparr>"]
  show ?thesis by blast
qed

subsection \<open>Polynomials: multiplication is the convolution\<close>

lemma mul_inner_spec:
  "ys = [] \<or> i + j + length ys \<le> length result \<Longrightarrow>
   \<exists>result'. mul_inner R i x j ys result = Inr result' \<and> length result' = length result
     \<and> (\<forall>k < length result. result' ! k =
           (if i + j \<le> k \<and> k < i + j + length ys
            then r_add R (result ! k) (r_mul R x (ys ! (k - (i + j))))
            else result ! k))"
proof (induction ys arbitrary: j result)
  case Nil
  then show ?case by auto
next
  case (Cons y ys)
  then have bound: "i + j + Suc (length ys) \<le> length result" by simp
  let ?r1 = "result[i + j := r_add R (result ! (i + j)) (r_mul R x y)]"
  have step: "add_at R result (i + j) (r_mul R x y) = Inr ?r1"
    using bound by (simp add: add_at_def)
  have "ys = [] \<or> i + Suc j + length ys \<le> length ?r1" using bound by simp
  from Cons.IH [OF this] obtain result' where
    r: "mul_inner R i x (Suc j) ys ?r1 = Inr result'" and
    len: "length result' = length ?r1" and
    nth: "\<forall>k < length ?r1. result' ! k =
           (if i + Suc j \<le> k \<and> k < i + Suc j + length ys
            then r_add R (?r1 ! k) (r_mul R x (ys ! (k - (i + Suc j))))
            else ?r1 ! k)"
    by blast
  have "mul_inner R i x j (y # ys) result = Inr result'"
    by (simp add: step r)
  moreover have "length result' = length result" using len by simp
  moreover have "\<forall>k < length result. result' ! k =
           (if i + j \<le> k \<and> k < i + j + length (y # ys)
            then r_add R (result ! k) (r_mul R x ((y # ys) ! (k - (i + j))))
            else result ! k)"
  proof (intro allI impI)
    fix k assume k: "k < length result"
    then have k1: "k < length ?r1" by simp
    show "result' ! k =
           (if i + j \<le> k \<and> k < i + j + length (y # ys)
            then r_add R (result ! k) (r_mul R x ((y # ys) ! (k - (i + j))))
            else result ! k)"
    proof (cases "k = i + j")
      case True
      then show ?thesis using nth k1 k by simp
    next
      case False
      then have "?r1 ! k = result ! k" by simp
      moreover have "i + j \<le> k \<Longrightarrow> (y # ys) ! (k - (i + j)) = ys ! (k - (i + Suc j))"
        using False by (simp add: nth_Cons')
      ultimately show ?thesis using nth k1 False by auto
    qed
  qed
  ultimately show ?case by blast
qed

lemma mul_outer_spec:
  "ds = [] \<or> i + length xs + length ds \<le> length result + 1 \<Longrightarrow>
   \<exists>result'. mul_outer R i xs ds result = Inr result' \<and> length result' = length result
     \<and> (\<forall>k < length result. result' ! k =
           foldl (r_add R) (result ! k)
             (map (\<lambda>i'. r_mul R (xs ! (i' - i)) (ds ! (k - i')))
                (filter (\<lambda>i'. i' \<le> k \<and> k - i' < length ds) [i..<i + length xs])))"
proof (induction xs arbitrary: i result)
  case Nil
  then show ?case by auto
next
  case (Cons x xs)
  have "ds = [] \<or> i + 0 + length ds \<le> length result" using Cons.prems by auto
  from mul_inner_spec [OF this, of R x] obtain r1 where
    r1: "mul_inner R i x 0 ds result = Inr r1" and
    len1: "length r1 = length result" and
    nth1: "\<forall>k < length result. r1 ! k =
           (if i + 0 \<le> k \<and> k < i + 0 + length ds
            then r_add R (result ! k) (r_mul R x (ds ! (k - (i + 0))))
            else result ! k)"
    by blast
  have "ds = [] \<or> Suc i + length xs + length ds \<le> length r1 + 1"
    using Cons.prems len1 by auto
  from Cons.IH [OF this] obtain result' where
    r: "mul_outer R (Suc i) xs ds r1 = Inr result'" and
    len: "length result' = length r1" and
    nth: "\<forall>k < length r1. result' ! k =
           foldl (r_add R) (r1 ! k)
             (map (\<lambda>i'. r_mul R (xs ! (i' - Suc i)) (ds ! (k - i')))
                (filter (\<lambda>i'. i' \<le> k \<and> k - i' < length ds) [Suc i..<Suc i + length xs]))"
    by blast
  have "mul_outer R i (x # xs) ds result = Inr result'"
    by (simp add: r1 r)
  moreover have "length result' = length result" using len len1 by simp
  moreover have "\<forall>k < length result. result' ! k =
           foldl (r_add R) (result ! k)
             (map (\<lambda>i'. r_mul R ((x # xs) ! (i' - i)) (ds ! (k - i')))
                (filter (\<lambda>i'. i' \<le> k \<and> k - i' < length ds) [i..<i + length (x # xs)]))"
  proof (intro allI impI)
    fix k assume k: "k < length result"
    let ?P = "\<lambda>i'. i' \<le> k \<and> k - i' < length ds"
    let ?rest = "filter ?P [Suc i..<Suc i + length xs]"
    have "i < i + length (x # xs)" by simp
    then have "[i..<i + length (x # xs)] = i # [Suc i..<i + length (x # xs)]"
      by (rule upt_conv_Cons)
    moreover have "i + length (x # xs) = Suc i + length xs" by simp
    ultimately have upt: "[i..<i + length (x # xs)] = i # [Suc i..<Suc i + length xs]"
      by (simp only:)
    have tail: "map (\<lambda>i'. r_mul R ((x # xs) ! (i' - i)) (ds ! (k - i'))) ?rest
              = map (\<lambda>i'. r_mul R (xs ! (i' - Suc i)) (ds ! (k - i'))) ?rest"
      by (rule map_cong) (auto simp: nth_Cons')
    have res: "result' ! k =
           foldl (r_add R) (r1 ! k)
             (map (\<lambda>i'. r_mul R (xs ! (i' - Suc i)) (ds ! (k - i'))) ?rest)"
      using nth k len1 by simp
    show "result' ! k =
           foldl (r_add R) (result ! k)
             (map (\<lambda>i'. r_mul R ((x # xs) ! (i' - i)) (ds ! (k - i')))
                (filter ?P [i..<i + length (x # xs)]))"
    proof (cases "?P i")
      case True
      then have r1k: "r1 ! k = r_add R (result ! k) (r_mul R x (ds ! (k - i)))"
        using nth1 k by auto
      have filt: "filter ?P [i..<i + length (x # xs)] = i # ?rest"
        unfolding upt using True by simp
      have hd: "r_mul R ((x # xs) ! (i - i)) (ds ! (k - i)) = r_mul R x (ds ! (k - i))"
        by simp
      show ?thesis
        unfolding filt list.map foldl_Cons hd tail res r1k ..
    next
      case False
      then have r1k: "r1 ! k = result ! k"
        using nth1 k by auto
      have filt: "filter ?P [i..<i + length (x # xs)] = ?rest"
        unfolding upt using False by simp
      show ?thesis
        unfolding filt tail res r1k ..
    qed
  qed
  ultimately show ?case by blast
qed


lemma degree_sum: "nat (degree p + degree q + 2) = length (coefficients p) + length (coefficients q)"
  by (simp add: degree_def)

lemma mul_result_convolution:
  "mul_result R p q =
     Inr (map (convolution_slot R (zero_coefficient p) (coefficients p) (coefficients q))
            [0..<nat (degree p + degree q + 2)])"
proof -
  let ?n = "length (coefficients p) + length (coefficients q)"
  let ?z = "zero_coefficient p"
  let ?init = "replicate ?n ?z"
  have "coefficients q = [] \<or> 0 + length (coefficients p) + length (coefficients q) \<le> length ?init + 1"
    by simp
  from mul_outer_spec [OF this, of R] obtain result' where
    r: "mul_outer R 0 (coefficients p) (coefficients q) ?init = Inr result'" and
    len: "length result' = length ?init" and
    nth: "\<forall>k < length ?init. result' ! k =
           foldl (r_add R) (?init ! k)
             (map (\<lambda>i'. r_mul R (coefficients p ! (i' - 0)) (coefficients q ! (k - i')))
                (filter (\<lambda>i'. i' \<le> k \<and> k - i' < length (coefficients q))
                   [0..<0 + length (coefficients p)]))"
    by blast
  have "result' = map (convolution_slot R ?z (coefficients p) (coefficients q)) [0..<?n]"
  proof (rule nth_equalityI)
    show "length result' = length (map (convolution_slot R ?z (coefficients p) (coefficients q)) [0..<?n])"
      using len by simp
  next
    fix k assume "k < length result'"
    then have k: "k < ?n" using len by simp
    then have "result' ! k = foldl (r_add R) ?z
             (map (\<lambda>i'. r_mul R (coefficients p ! i') (coefficients q ! (k - i')))
                (filter (\<lambda>i'. i' \<le> k \<and> k - i' < length (coefficients q))
                   [0..<length (coefficients p)]))"
      using nth by simp
    then show "result' ! k = map (convolution_slot R ?z (coefficients p) (coefficients q)) [0..<?n] ! k"
      using k by (simp add: convolution_slot_def)
  qed
  then show ?thesis using r by (simp add: mul_result_def degree_sum)
qed

lemma foldl_add_int: "foldl (\<lambda>x y. x + y) (a::int) xs = a + sum_list xs"
  by (induction xs arbitrary: a) simp_all

lemma convolution_slot_Integers:
  "convolution_slot Integers 0 cs ds k =
     (\<Sum>i\<leftarrow>filter (\<lambda>i. i \<le> k \<and> k - i < length ds) [0..<length cs]. cs ! i * ds ! (k - i))"
  by (simp add: convolution_slot_def Integers_def foldl_add_int)

text \<open>
  C2: polynomial multiplication is the schoolbook convolution. For every pair of
  polynomials \<open>p\<close>, \<open>q\<close> the loops of \<^verbatim>\<open>__mul__\<close> end without an error; the list
  \<^verbatim>\<open>result\<close> they leave has \<open>deg p + deg q + 2\<close> slots, and slot \<open>k\<close> holds the sum of
  \<open>p[i] * q[j]\<close> over all \<open>i + j = k\<close> (over the integers that is the usual sum); the
  product is that list, normalized by the constructor. Over the integers, for
  \<open>p = make(5, 2, 1)\<close>, \<open>p.mul(p)\<close> is \<open>make(25, 20, 14, 4, 1)\<close> and
  \<^verbatim>\<open>equals\<close> holds of the two.
\<close>

theorem mul_is_convolution:
  "mul_result R p q =
     Inr (map (convolution_slot R (zero_coefficient p) (coefficients p) (coefficients q))
            [0..<nat (degree p + degree q + 2)])
   \<and> ListPolynomial_mul R p q =
     Inr (ListPolynomial_init R (zero_coefficient p)
            (map (convolution_slot R (zero_coefficient p) (coefficients p) (coefficients q))
               [0..<nat (degree p + degree q + 2)]))
   \<and> convolution_slot Integers 0 cs ds k =
     (\<Sum>i\<leftarrow>filter (\<lambda>i. i \<le> k \<and> k - i < length ds) [0..<length cs]. cs ! i * ds ! (k - i))
   \<and> PolynomialRing_call Integers [5, 2, 1] = Inr \<lparr> zero_coefficient = 0, coefficients = [5, 2, 1] \<rparr>
   \<and> ListPolynomial_mul Integers \<lparr> zero_coefficient = 0, coefficients = [5, 2, 1] \<rparr>
         \<lparr> zero_coefficient = 0, coefficients = [5, 2, 1] \<rparr>
       = Inr \<lparr> zero_coefficient = 0, coefficients = [25, 20, 14, 4, 1] \<rparr>
   \<and> PolynomialRing_call Integers [25, 20, 14, 4, 1]
       = Inr \<lparr> zero_coefficient = 0, coefficients = [25, 20, 14, 4, 1] \<rparr>
   \<and> ListPolynomial_eq Integers \<lparr> zero_coefficient = 0, coefficients = [25, 20, 14, 4, 1] \<rparr>
         \<lparr> zero_coefficient = 0, coefficients = [25, 20, 14, 4, 1] \<rparr>"
proof -
  have "ListPolynomial_mul Integers \<lparr> zero_coefficient = 0, coefficients = [5, 2, 1] \<rparr>
         \<lparr> zero_coefficient = 0, coefficients = [5, 2, 1] \<rparr>
       = Inr \<lparr> zero_coefficient = 0, coefficients = [25, 20, 14, 4, 1] \<rparr>"
    by code_simp
  moreover have "PolynomialRing_call Integers [5, 2, 1] = Inr \<lparr> zero_coefficient = 0, coefficients = [5, 2, 1] \<rparr>"
    by (simp add: PolynomialRing_call_def Integers_def ListPolynomial_init_def
        remove_leading_zeros.simps)
  moreover have "PolynomialRing_call Integers [25, 20, 14, 4, 1]
       = Inr \<lparr> zero_coefficient = 0, coefficients = [25, 20, 14, 4, 1] \<rparr>"
    by (simp add: PolynomialRing_call_def Integers_def ListPolynomial_init_def
        remove_leading_zeros.simps)
  moreover have "ListPolynomial_eq Integers \<lparr> zero_coefficient = 0, coefficients = [25, 20, 14, 4, 1] \<rparr>
         \<lparr> zero_coefficient = 0, coefficients = [25, 20, 14, 4, 1] \<rparr>"
    by (simp add: ListPolynomial_eq_def degree_def Integers_def)
  moreover have "ListPolynomial_mul R p q =
     Inr (ListPolynomial_init R (zero_coefficient p)
            (map (convolution_slot R (zero_coefficient p) (coefficients p) (coefficients q))
               [0..<nat (degree p + degree q + 2)]))"
    by (simp add: ListPolynomial_mul_def mul_result_convolution)
  ultimately show ?thesis
    using mul_result_convolution [of R p q] convolution_slot_Integers [of cs ds k]
    by (simp only: simp_thms)
qed

subsection \<open>Polynomials: multiplication by the zero polynomial\<close>

lemma butlast_replicate_Suc: "butlast (replicate (Suc n) z) = replicate n z"
  by (induction n) simp_all

lemma remove_leading_zeros_replicate:
  "r_eq R z z \<Longrightarrow> remove_leading_zeros R z (replicate (Suc n) z) = [z]"
proof (induction n)
  case 0
  then show ?case by (simp add: remove_leading_zeros_length1)
next
  case (Suc n)
  have "remove_leading_zeros R z (replicate (Suc (Suc n)) z)
      = remove_leading_zeros R z (butlast (replicate (Suc (Suc n)) z))"
    using Suc.prems by (subst remove_leading_zeros.simps) simp
  also have "butlast (replicate (Suc (Suc n)) z) = replicate (Suc n) z"
    by (rule butlast_replicate_Suc)
  finally show ?case using Suc by simp
qed

lemma foldl_all_zero:
  "r_add R z z = z \<Longrightarrow> \<forall>x \<in> set xs. x = z \<Longrightarrow> foldl (r_add R) z xs = z"
  by (induction xs) simp_all

lemma convolution_slot_zero:
  assumes "\<forall>x. r_mul R x z = z" and "r_add R z z = z"
  shows "convolution_slot R z cs [z] k = z"
  unfolding convolution_slot_def
  by (rule foldl_all_zero) (use assms in auto)

lemma mul_by_zero_polynomial:
  assumes "\<forall>x. r_mul R x (r_zero R) = r_zero R"
    and "\<forall>x. r_add R (r_zero R) x = x"
    and "r_eq R (r_zero R) (r_zero R)"
    and "zero_coefficient p = r_zero R"
  shows "ListPolynomial_mul R p \<lparr> zero_coefficient = r_zero R, coefficients = [r_zero R] \<rparr>
         = Inr \<lparr> zero_coefficient = r_zero R, coefficients = [r_zero R] \<rparr>"
proof -
  let ?z = "r_zero R"
  let ?Z = "\<lparr> zero_coefficient = ?z, coefficients = [?z] \<rparr>"
  have add: "r_add R ?z ?z = ?z" using assms(2) by simp
  have n: "nat (degree p + degree ?Z + 2) = Suc (length (coefficients p))"
    by (simp add: degree_def)
  have "map (convolution_slot R ?z (coefficients p) [?z]) [0..<Suc (length (coefficients p))]
      = replicate (Suc (length (coefficients p))) ?z"
    by (rule nth_equalityI) (simp_all add: convolution_slot_zero [OF assms(1) add] del: upt_Suc replicate_Suc)
  then have "mul_result R p ?Z = Inr (replicate (Suc (length (coefficients p))) ?z)"
    using mul_result_convolution [of R p ?Z] by (simp add: n assms(4) del: upt_Suc replicate_Suc)
  then show ?thesis
    by (simp add: ListPolynomial_mul_def ListPolynomial_init_def assms(4)
        remove_leading_zeros_replicate [OF assms(3)] del: replicate_Suc)
qed

text \<open>
  C10: multiplication by the zero polynomial annihilates. Over a coefficient ring in
  which zero is absorbing for multiplication and neutral for addition (and equal to
  itself under the ring's equality), for every polynomial \<open>p\<close> of that ring
  \<^verbatim>\<open>p.mul(make(0))\<close> is the zero polynomial \<^verbatim>\<open>make(0)\<close>: the all-zero list of the
  convolution is normalized down to the single coefficient zero, of degree 0, and
  \<^verbatim>\<open>equals(make(0))\<close> holds.
\<close>

theorem mul_zero_annihilates:
  assumes "\<forall>x. r_mul R x (r_zero R) = r_zero R"
    and "\<forall>x. r_add R (r_zero R) x = x"
    and "r_eq R (r_zero R) (r_zero R)"
    and "r_call R c = Inr (r_zero R)"
    and "zero_coefficient p = r_zero R"
  shows "PolynomialRing_call R [c] = Inr \<lparr> zero_coefficient = r_zero R, coefficients = [r_zero R] \<rparr>
    \<and> ListPolynomial_mul R p \<lparr> zero_coefficient = r_zero R, coefficients = [r_zero R] \<rparr>
        = Inr \<lparr> zero_coefficient = r_zero R, coefficients = [r_zero R] \<rparr>
    \<and> ListPolynomial_eq R \<lparr> zero_coefficient = r_zero R, coefficients = [r_zero R] \<rparr>
          \<lparr> zero_coefficient = r_zero R, coefficients = [r_zero R] \<rparr>
    \<and> degree \<lparr> zero_coefficient = r_zero R, coefficients = [r_zero R] \<rparr> = 0"
proof -
  have "PolynomialRing_call R [c] = Inr \<lparr> zero_coefficient = r_zero R, coefficients = [r_zero R] \<rparr>"
    using assms(4)
    by (simp add: PolynomialRing_call_def ListPolynomial_init_def remove_leading_zeros_length1)
  moreover have "ListPolynomial_eq R \<lparr> zero_coefficient = r_zero R, coefficients = [r_zero R] \<rparr>
          \<lparr> zero_coefficient = r_zero R, coefficients = [r_zero R] \<rparr>"
    using assms(3) by (simp add: ListPolynomial_eq_def)
  moreover have "degree \<lparr> zero_coefficient = r_zero R, coefficients = [r_zero R] \<rparr> = 0"
    by (simp add: degree_def)
  ultimately show ?thesis
    using mul_by_zero_polynomial [OF assms(1) assms(2) assms(3) assms(5)] by blast
qed

theorem mul_zero_annihilates_witness:
  "(\<forall>x. r_mul Integers x (r_zero Integers) = r_zero Integers)
   \<and> (\<forall>x. r_add Integers (r_zero Integers) x = x)
   \<and> r_eq Integers (r_zero Integers) (r_zero Integers)
   \<and> r_call Integers 0 = Inr (r_zero Integers)
   \<and> PolynomialRing_call Integers [0] = Inr \<lparr> zero_coefficient = 0, coefficients = [0] \<rparr>
   \<and> ListPolynomial_mul Integers \<lparr> zero_coefficient = 0, coefficients = [5, 2, 1] \<rparr>
        \<lparr> zero_coefficient = 0, coefficients = [0] \<rparr>
       = Inr \<lparr> zero_coefficient = 0, coefficients = [0] \<rparr>
   \<and> ListPolynomial_eq Integers \<lparr> zero_coefficient = 0, coefficients = [0] \<rparr>
        \<lparr> zero_coefficient = 0, coefficients = [0] \<rparr>"
proof -
  have h: "\<forall>x. r_mul Integers x (r_zero Integers) = r_zero Integers"
    "\<forall>x. r_add Integers (r_zero Integers) x = x"
    "r_eq Integers (r_zero Integers) (r_zero Integers)"
    "r_call Integers 0 = Inr (r_zero Integers)"
    "zero_coefficient \<lparr> zero_coefficient = 0, coefficients = [5, 2, 1] \<rparr> = r_zero Integers"
    by (simp_all add: Integers_def)
  have z: "r_zero Integers = 0" by (simp add: Integers_def)
  show ?thesis
    using h mul_zero_annihilates [OF h] by (simp add: z)
qed

subsection \<open>Quotient rings: the canonical homomorphism\<close>

lemma Integers_commutative_ring: "commutative_ring Integers"
  by (simp add: commutative_ring_def Integers_def)

lemma Integers_division_with_remainder: "m \<noteq> 0 \<Longrightarrow> division_with_remainder Integers m"
  by (simp add: division_with_remainder_def r_mod_def Integers_def)

lemma r_mod_total:
  assumes "division_with_remainder R m"
  shows "\<exists>r k. r_mod R x m = Inr r \<and> x = r + k * m"
proof -
  from assms obtain q r where "r_divmod R x m = Inr (q, r)" and "x = q * m + r"
    unfolding division_with_remainder_def by blast
  then have "r_mod R x m = Inr r \<and> x = r + q * m" by (simp add: r_mod_def add.commute)
  then show ?thesis by blast
qed

lemma r_mod_congruent:
  assumes "division_with_remainder R m" and "x = y + k * m"
  shows "r_mod R x m = r_mod R y m"
  using assms unfolding division_with_remainder_def by blast

lemma init_source:
  "QuotientRing_init R m (SourceElement x) = Inr q \<longleftrightarrow> r_mod R x m = Inr (remainder q)"
  by (cases q) (auto simp: QuotientRing_init_def split: sum.splits)

lemma homomorphism_add:
  assumes ring: "commutative_ring R" and dwr: "division_with_remainder R m"
  shows "\<exists>a b s t. QuotientRing_init R m (SourceElement x) = Inr a
      \<and> QuotientRing_init R m (SourceElement y) = Inr b
      \<and> QuotientRing_add R m a b = Inr s
      \<and> QuotientRing_init R m (SourceElement (r_add R x y)) = Inr t
      \<and> QuotientRing_eq R s t"
proof -
  from r_mod_total [OF dwr, of x] obtain rx kx where rx: "r_mod R x m = Inr rx" "x = rx + kx * m" by blast
  from r_mod_total [OF dwr, of y] obtain ry ky where ry: "r_mod R y m = Inr ry" "y = ry + ky * m" by blast
  from r_mod_total [OF dwr, of "x + y"] obtain rt kt where rt: "r_mod R (x + y) m = Inr rt" by blast
  have add: "r_add R = (\<lambda>x y. x + y)" and eq: "r_eq R = (\<lambda>x y. x = y)"
    using ring by (simp_all add: commutative_ring_def)
  have "x + y = (rx + ry) + (kx + ky) * m"
    using rx(2) ry(2) by (simp add: algebra_simps)
  then have "r_mod R (x + y) m = r_mod R (rx + ry) m" by (rule r_mod_congruent [OF dwr])
  then have rs: "r_mod R (rx + ry) m = Inr rt" using rt by simp
  show ?thesis
    apply (rule exI [of _ "\<lparr> remainder = rx \<rparr>"])
    apply (rule exI [of _ "\<lparr> remainder = ry \<rparr>"])
    apply (rule exI [of _ "\<lparr> remainder = rt \<rparr>"])
    apply (rule exI [of _ "\<lparr> remainder = rt \<rparr>"])
    using rx(1) ry(1) rt rs
    by (simp add: init_source QuotientRing_add_def QuotientRing_eq_def add eq)
qed

lemma homomorphism_mul:
  assumes ring: "commutative_ring R" and dwr: "division_with_remainder R m"
  shows "\<exists>a b s t. QuotientRing_init R m (SourceElement x) = Inr a
      \<and> QuotientRing_init R m (SourceElement y) = Inr b
      \<and> QuotientRing_mul R m a b = Inr s
      \<and> QuotientRing_init R m (SourceElement (r_mul R x y)) = Inr t
      \<and> QuotientRing_eq R s t"
proof -
  from r_mod_total [OF dwr, of x] obtain rx kx where rx: "r_mod R x m = Inr rx" "x = rx + kx * m" by blast
  from r_mod_total [OF dwr, of y] obtain ry ky where ry: "r_mod R y m = Inr ry" "y = ry + ky * m" by blast
  from r_mod_total [OF dwr, of "x * y"] obtain rt kt where rt: "r_mod R (x * y) m = Inr rt" by blast
  have mul: "r_mul R = (\<lambda>x y. x * y)" and eq: "r_eq R = (\<lambda>x y. x = y)"
    using ring by (simp_all add: commutative_ring_def)
  have "x * y = rx * ry + (rx * ky + kx * ry + kx * ky * m) * m"
    using rx(2) ry(2) by (simp add: algebra_simps)
  then have "r_mod R (x * y) m = r_mod R (rx * ry) m" by (rule r_mod_congruent [OF dwr])
  then have rs: "r_mod R (rx * ry) m = Inr rt" using rt by simp
  show ?thesis
    apply (rule exI [of _ "\<lparr> remainder = rx \<rparr>"])
    apply (rule exI [of _ "\<lparr> remainder = ry \<rparr>"])
    apply (rule exI [of _ "\<lparr> remainder = rt \<rparr>"])
    apply (rule exI [of _ "\<lparr> remainder = rt \<rparr>"])
    using rx(1) ry(1) rt rs
    by (simp add: init_source QuotientRing_mul_def QuotientRing_eq_def mul eq)
qed

lemma Z4_add:
  "QuotientRing_init Integers 4 (SourceElement 1) = Inr \<lparr> remainder = 1 \<rparr>
   \<and> QuotientRing_init Integers 4 (SourceElement 3) = Inr \<lparr> remainder = 3 \<rparr>
   \<and> QuotientRing_init Integers 4 (SourceElement 0) = Inr \<lparr> remainder = 0 \<rparr>
   \<and> QuotientRing_add Integers 4 \<lparr> remainder = 1 \<rparr> \<lparr> remainder = 3 \<rparr> = Inr \<lparr> remainder = 0 \<rparr>
   \<and> QuotientRing_eq Integers \<lparr> remainder = 0 \<rparr> \<lparr> remainder = 0 \<rparr>"
  by (simp add: QuotientRing_init_def QuotientRing_add_def QuotientRing_eq_def r_mod_def
      Integers_def)

lemma Z4_mul:
  "QuotientRing_init Integers 4 (SourceElement 2) = Inr \<lparr> remainder = 2 \<rparr>
   \<and> QuotientRing_mul Integers 4 \<lparr> remainder = 2 \<rparr> \<lparr> remainder = 2 \<rparr> = Inr \<lparr> remainder = 0 \<rparr>"
  by (simp add: QuotientRing_init_def QuotientRing_mul_def r_mod_def Integers_def)

text \<open>
  C5: the construction of the quotient ring is a ring homomorphism from the source
  ring. Over a source ring that is a commutative ring with a division with remainder
  by the modulus, for all source-ring elements \<open>x\<close>, \<open>y\<close> the classes \<open>[x]\<close>, \<open>[y]\<close>,
  \<open>[x + y]\<close> and \<open>[x * y]\<close> exist, and \<open>[x].add([y]).equals([x.add(y)])\<close> and
  \<open>[x].mul([y]).equals([x.mul(y)])\<close> hold. In \<open>Z/4Z\<close>, \<open>[1] + [3]\<close> is \<open>[0]\<close> and
  \<open>[2] * [2]\<close> is \<open>[0]\<close>.
\<close>

theorem quotient_homomorphism:
  "(commutative_ring R \<and> division_with_remainder R m \<longrightarrow>
      (\<exists>a b s t. QuotientRing_init R m (SourceElement x) = Inr a
        \<and> QuotientRing_init R m (SourceElement y) = Inr b
        \<and> QuotientRing_add R m a b = Inr s
        \<and> QuotientRing_init R m (SourceElement (r_add R x y)) = Inr t
        \<and> QuotientRing_eq R s t)
      \<and> (\<exists>a b s t. QuotientRing_init R m (SourceElement x) = Inr a
        \<and> QuotientRing_init R m (SourceElement y) = Inr b
        \<and> QuotientRing_mul R m a b = Inr s
        \<and> QuotientRing_init R m (SourceElement (r_mul R x y)) = Inr t
        \<and> QuotientRing_eq R s t))
   \<and> QuotientRing_init Integers 4 (SourceElement 1) = Inr \<lparr> remainder = 1 \<rparr>
   \<and> QuotientRing_init Integers 4 (SourceElement 3) = Inr \<lparr> remainder = 3 \<rparr>
   \<and> QuotientRing_init Integers 4 (SourceElement 0) = Inr \<lparr> remainder = 0 \<rparr>
   \<and> QuotientRing_add Integers 4 \<lparr> remainder = 1 \<rparr> \<lparr> remainder = 3 \<rparr> = Inr \<lparr> remainder = 0 \<rparr>
   \<and> QuotientRing_eq Integers \<lparr> remainder = 0 \<rparr> \<lparr> remainder = 0 \<rparr>
   \<and> QuotientRing_init Integers 4 (SourceElement 2) = Inr \<lparr> remainder = 2 \<rparr>
   \<and> QuotientRing_mul Integers 4 \<lparr> remainder = 2 \<rparr> \<lparr> remainder = 2 \<rparr> = Inr \<lparr> remainder = 0 \<rparr>"
  using homomorphism_add [of R m x y] homomorphism_mul [of R m x y] Z4_add Z4_mul
  by blast

theorem quotient_homomorphism_witness:
  "commutative_ring Integers \<and> division_with_remainder Integers 4
   \<and> (\<exists>a b s t. QuotientRing_init Integers 4 (SourceElement 1) = Inr a
        \<and> QuotientRing_init Integers 4 (SourceElement 3) = Inr b
        \<and> QuotientRing_add Integers 4 a b = Inr s
        \<and> QuotientRing_init Integers 4 (SourceElement (r_add Integers 1 3)) = Inr t
        \<and> QuotientRing_eq Integers s t)
   \<and> (\<exists>a b s t. QuotientRing_init Integers 4 (SourceElement 1) = Inr a
        \<and> QuotientRing_init Integers 4 (SourceElement 3) = Inr b
        \<and> QuotientRing_mul Integers 4 a b = Inr s
        \<and> QuotientRing_init Integers 4 (SourceElement (r_mul Integers 1 3)) = Inr t
        \<and> QuotientRing_eq Integers s t)"
proof -
  have "commutative_ring Integers" by (rule Integers_commutative_ring)
  moreover have "division_with_remainder Integers 4"
    by (rule Integers_division_with_remainder) simp
  ultimately show ?thesis
    using quotient_homomorphism [of Integers 4 1 3] by blast
qed

subsection \<open>Quotient rings: the stored remainder is reduced\<close>

lemma init_is_remainder:
  "QuotientRing_init R m (SourceElement x) = Inr q \<Longrightarrow> \<exists>x'. r_mod R x' m = Inr (remainder q)"
  using init_source [of R m x q] by blast

lemma init_other_is_remainder:
  "QuotientRing_init R m (Other c) = Inr q \<Longrightarrow> \<exists>x'. r_mod R x' m = Inr (remainder q)"
  by (cases q) (auto simp: QuotientRing_init_def split: sum.splits)

lemma init_element_remainder:
  "QuotientRing_init R m (Element p) = Inr q \<Longrightarrow> remainder q = remainder p"
  by (auto simp: QuotientRing_init_def)

lemma inverse_is_remainder:
  "QuotientRing_multiplicative_inverse R m eea a = Inr q \<Longrightarrow> \<exists>x'. r_mod R x' m = Inr (remainder q)"
  by (auto simp: QuotientRing_multiplicative_inverse_def split: if_splits sum.splits prod.splits
      dest: init_is_remainder)

lemma constructed_is_remainder:
  "constructed R m eea q \<Longrightarrow> \<exists>x. r_mod R x m = Inr (remainder q)"
proof (induction rule: constructed.induct)
  case (of_source x q)
  then show ?case by (rule init_is_remainder)
next
  case (of_other c q)
  then show ?case by (rule init_other_is_remainder)
next
  case (of_element p q)
  then show ?case by (simp add: init_element_remainder)
next
  case (of_add a b q)
  then show ?case unfolding QuotientRing_add_def by (blast dest: init_is_remainder)
next
  case (of_neg a q)
  then show ?case unfolding QuotientRing_neg_def by (blast dest: init_is_remainder)
next
  case (of_mul a b q)
  then show ?case unfolding QuotientRing_mul_def by (blast dest: init_is_remainder)
next
  case (of_truediv a b q)
  from of_truediv(3) obtain v where "QuotientRing_mul R m a v = Inr q"
    by (auto simp: QuotientRing_truediv_def split: sum.splits)
  then show ?case unfolding QuotientRing_mul_def by (rule init_is_remainder)
next
  case (of_rtruediv a b q)
  from of_rtruediv(3) obtain v where "QuotientRing_mul R m b v = Inr q"
    by (auto simp: QuotientRing_rtruediv_def split: sum.splits)
  then show ?case unfolding QuotientRing_mul_def by (rule init_is_remainder)
next
  case (of_inverse a q)
  then show ?case by (blast dest: inverse_is_remainder)
next
  case (of_zero q)
  then show ?case unfolding QuotientRing_zero_def by (rule init_is_remainder)
next
  case (of_one q)
  then show ?case unfolding QuotientRing_one_def by (rule init_is_remainder)
qed

lemma constructed_reduced:
  "canonical_remainder R m \<Longrightarrow> constructed R m eea q \<Longrightarrow> reduced R m q"
  using constructed_is_remainder [of R m eea q]
  unfolding canonical_remainder_def reduced_def by blast

lemma Integers_canonical_remainder: "m \<noteq> 0 \<Longrightarrow> canonical_remainder Integers m"
  by (simp add: canonical_remainder_def r_mod_def Integers_def split: if_splits)

lemma division_canonical:
  assumes "division_with_remainder R m"
  shows "canonical_remainder R m"
  unfolding canonical_remainder_def
proof (intro allI impI)
  fix x r assume r: "r_mod R x m = Inr r"
  from r_mod_total [OF assms, of x] obtain r' k where "r_mod R x m = Inr r'" "x = r' + k * m"
    by blast
  with r have "x = r + k * m" by simp
  then have "r_mod R x m = r_mod R r m" by (rule r_mod_congruent [OF assms])
  with r show "r_mod R r m = Inr r" by simp
qed

lemma operations_return:
  assumes "\<forall>x. \<exists>r. r_mod R x m = Inr r"
  shows "(\<exists>q. QuotientRing_init R m (SourceElement x) = Inr q)"
proof -
  from assms obtain r where "r_mod R x m = Inr r" by blast
  then have "QuotientRing_init R m (SourceElement x) = Inr \<lparr> remainder = r \<rparr>"
    by (simp add: QuotientRing_init_def)
  then show ?thesis by blast
qed

text \<open>
  C4: every quotient-ring element stores a reduced remainder. The stored remainder of
  an element built from a representative is the representative modulo the modulus;
  every element the class produces (by construction, add, neg, mul, divide and its
  reflected form, multiplicative_inverse, zero and one) stores the remainder of some
  source-ring element; and, the remainders of the source ring being canonical, that
  stored remainder is already reduced. Where the remainder by the modulus never
  raises, construction, add, neg, mul, zero and one return an element.
\<close>

theorem stored_remainder_reduced:
  "(QuotientRing_init R m (SourceElement x) = Inr q \<longleftrightarrow> r_mod R x m = Inr (remainder q))
   \<and> (constructed R m eea q \<longrightarrow> (\<exists>x'. r_mod R x' m = Inr (remainder q)))
   \<and> (canonical_remainder R m \<and> constructed R m eea q \<longrightarrow> reduced R m q)
   \<and> ((\<forall>x'. \<exists>r. r_mod R x' m = Inr r) \<longrightarrow>
        (\<exists>q'. QuotientRing_init R m (SourceElement x) = Inr q')
        \<and> (\<exists>q'. QuotientRing_add R m a b = Inr q')
        \<and> (\<exists>q'. QuotientRing_neg R m a = Inr q')
        \<and> (\<exists>q'. QuotientRing_mul R m a b = Inr q')
        \<and> (\<exists>q'. QuotientRing_zero R m = Inr q')
        \<and> (\<exists>q'. QuotientRing_one R m = Inr q'))"
proof -
  have "QuotientRing_init R m (SourceElement x) = Inr q \<longleftrightarrow> r_mod R x m = Inr (remainder q)"
    by (rule init_source)
  moreover have "constructed R m eea q \<longrightarrow> (\<exists>x'. r_mod R x' m = Inr (remainder q))"
    by (blast dest: constructed_is_remainder)
  moreover have "canonical_remainder R m \<and> constructed R m eea q \<longrightarrow> reduced R m q"
    by (blast intro: constructed_reduced)
  moreover have "(\<forall>x'. \<exists>r. r_mod R x' m = Inr r) \<longrightarrow>
        (\<exists>q'. QuotientRing_init R m (SourceElement x) = Inr q')
        \<and> (\<exists>q'. QuotientRing_add R m a b = Inr q')
        \<and> (\<exists>q'. QuotientRing_neg R m a = Inr q')
        \<and> (\<exists>q'. QuotientRing_mul R m a b = Inr q')
        \<and> (\<exists>q'. QuotientRing_zero R m = Inr q')
        \<and> (\<exists>q'. QuotientRing_one R m = Inr q')"
    unfolding QuotientRing_add_def QuotientRing_neg_def QuotientRing_mul_def
      QuotientRing_zero_def QuotientRing_one_def
    by (intro impI conjI operations_return)
  ultimately show ?thesis by (intro conjI)
qed

theorem stored_remainder_reduced_witness:
  "canonical_remainder Integers 4
   \<and> (\<forall>x'. \<exists>r. r_mod Integers x' 4 = Inr r)
   \<and> QuotientRing_add Integers 4 \<lparr> remainder = 3 \<rparr> \<lparr> remainder = 3 \<rparr> = Inr \<lparr> remainder = 2 \<rparr>
   \<and> constructed Integers 4 extended_euclidean_algorithm \<lparr> remainder = 2 \<rparr>
   \<and> reduced Integers 4 \<lparr> remainder = 2 \<rparr>
   \<and> (\<exists>q'. QuotientRing_mul Integers 4 \<lparr> remainder = 3 \<rparr> \<lparr> remainder = 3 \<rparr> = Inr q')"
proof -
  have c: "canonical_remainder Integers 4"
    by (rule Integers_canonical_remainder) simp
  have t: "\<forall>x'. \<exists>r. r_mod Integers x' 4 = Inr r"
    by (simp add: r_mod_def Integers_def)
  have three: "constructed Integers 4 extended_euclidean_algorithm \<lparr> remainder = 3 \<rparr>"
    by (rule constructed.of_source [of _ _ 3])
      (simp add: QuotientRing_init_def r_mod_def Integers_def)
  have sum: "QuotientRing_add Integers 4 \<lparr> remainder = 3 \<rparr> \<lparr> remainder = 3 \<rparr> = Inr \<lparr> remainder = 2 \<rparr>"
    by (simp add: QuotientRing_add_def QuotientRing_init_def r_mod_def Integers_def)
  have two: "constructed Integers 4 extended_euclidean_algorithm \<lparr> remainder = 2 \<rparr>"
    by (rule constructed.of_add [OF three three sum])
  show ?thesis
    using c t sum two
      stored_remainder_reduced [of Integers 4 3 "\<lparr> remainder = 2 \<rparr>" extended_euclidean_algorithm
        "\<lparr> remainder = 3 \<rparr>" "\<lparr> remainder = 3 \<rparr>"]
    by blast
qed

subsection \<open>Quotient rings: the multiplicative inverse\<close>

lemma eea_loop_bezout:
  "a = x * A + y * B \<Longrightarrow> b = x' * A + y' * B \<Longrightarrow> eea_loop a b x y x' y' = (u, v, g)
   \<Longrightarrow> A * u + B * v = g"
proof (induction a b x y x' y' rule: eea_loop.induct)
  case (1 a b x y x' y')
  show ?case
  proof (cases "b = 0")
    case True
    then have "eea_loop a b x y x' y' = (x, y, a)" by (subst eea_loop.simps) simp
    with "1.prems"(3) have "u = x" "v = y" "g = a" by simp_all
    with "1.prems"(1) show ?thesis by (simp add: algebra_simps)
  next
    case False
    have "a mod b = a - (a div b) * b" by (simp add: minus_div_mult_eq_mod)
    then have "a mod b = (x - (a div b) * x') * A + (y - (a div b) * y') * B"
      using "1.prems"(1,2) by (simp add: algebra_simps)
    moreover have "eea_loop b (a mod b) x' y' (x - (a div b) * x') (y - (a div b) * y') = (u, v, g)"
      using "1.prems"(3) False by (simp add: eea_loop.simps [of a b])
    ultimately show ?thesis using "1.IH" [OF False "1.prems"(2)] by blast
  qed
qed

lemma extended_euclidean_algorithm_bezout:
  "\<exists>x y g. extended_euclidean_algorithm a b = Inr (x, y, g) \<and> a * x + b * y = g"
proof -
  obtain x y g where e: "eea_loop a b 1 0 0 1 = (x, y, g)" by (cases "eea_loop a b 1 0 0 1") auto
  have "a * x + b * y = g" by (rule eea_loop_bezout [OF _ _ e]) simp_all
  with e show ?thesis by (simp add: extended_euclidean_algorithm_def)
qed

lemma inverse_returns_bezout:
  assumes "r_bool R (remainder u)" and "eea (remainder u) m = Inr (x, y, g)"
    and "r_eq R g (r_one R)"
  shows "QuotientRing_multiplicative_inverse R m eea u = QuotientRing_init R m (SourceElement x)"
  using assms by (simp add: QuotientRing_multiplicative_inverse_def)

lemma inverse_fails_iff:
  assumes "eea (remainder u) m = Inr (x, y, g)" and "\<forall>x'. \<exists>r. r_mod R x' m = Inr r"
  shows "QuotientRing_multiplicative_inverse R m eea u = Inl ZeroDivisionError
     \<longleftrightarrow> \<not> r_bool R (remainder u) \<or> \<not> r_eq R g (r_one R)"
proof -
  from assms(2) obtain r where "r_mod R x m = Inr r" by blast
  then have "QuotientRing_init R m (SourceElement x) = Inr \<lparr> remainder = r \<rparr>"
    by (simp add: QuotientRing_init_def)
  then show ?thesis using assms(1) by (simp add: QuotientRing_multiplicative_inverse_def)
qed

lemma inverse_law:
  assumes ring: "commutative_ring R" and dwr: "division_with_remainder R m"
    and nz: "r_bool R (remainder u)"
    and e: "eea (remainder u) m = Inr (x, y, g)"
    and bez: "remainder u * x + m * y = g"
    and one: "r_eq R g (r_one R)"
  shows "\<exists>v w e. QuotientRing_multiplicative_inverse R m eea u = Inr v
      \<and> QuotientRing_mul R m u v = Inr w
      \<and> QuotientRing_one R m = Inr e
      \<and> QuotientRing_eq R w e"
proof -
  have mul: "r_mul R = (\<lambda>x y. x * y)" and eq: "r_eq R = (\<lambda>x y. x = y)" and o: "r_one R = 1"
    using ring by (simp_all add: commutative_ring_def)
  have g: "g = 1" using one by (simp add: eq o)
  from r_mod_total [OF dwr, of x] obtain rx kx where rx: "r_mod R x m = Inr rx" "x = rx + kx * m" by blast
  from r_mod_total [OF dwr, of "1"] obtain r1 k1 where r1: "r_mod R 1 m = Inr r1" by blast
  have "1 = remainder u * rx + (remainder u * kx + y) * m"
    using bez g rx(2) by (simp add: algebra_simps)
  then have "r_mod R 1 m = r_mod R (remainder u * rx) m" by (rule r_mod_congruent [OF dwr])
  then have prod: "r_mod R (remainder u * rx) m = Inr r1" using r1 by simp
  have inv: "QuotientRing_multiplicative_inverse R m eea u = Inr \<lparr> remainder = rx \<rparr>"
    using inverse_returns_bezout [of R u eea m x y g] nz e one rx(1)
    by (simp add: QuotientRing_init_def)
  show ?thesis
    apply (rule exI [of _ "\<lparr> remainder = rx \<rparr>"])
    apply (rule exI [of _ "\<lparr> remainder = r1 \<rparr>"])
    apply (rule exI [of _ "\<lparr> remainder = r1 \<rparr>"])
    using inv prod r1
    by (simp add: QuotientRing_mul_def QuotientRing_one_def QuotientRing_init_def
        QuotientRing_eq_def mul eq o)
qed

lemma eea_2_4: "extended_euclidean_algorithm 2 4 = Inr (1, 0, 2)"
  by (simp add: extended_euclidean_algorithm_def eea_loop.simps)

lemma eea_3_5: "extended_euclidean_algorithm 3 5 = Inr (2, - 1, 1)"
  by (simp add: extended_euclidean_algorithm_def eea_loop.simps)

lemma Z4_inverse_2:
  "QuotientRing_multiplicative_inverse Integers 4 extended_euclidean_algorithm \<lparr> remainder = 2 \<rparr>
     = Inl ZeroDivisionError"
  by (simp add: QuotientRing_multiplicative_inverse_def eea_2_4 Integers_def)

lemma Z5_inverse_3:
  "QuotientRing_multiplicative_inverse Integers 5 extended_euclidean_algorithm \<lparr> remainder = 3 \<rparr>
     = Inr \<lparr> remainder = 2 \<rparr>"
  by (simp add: QuotientRing_multiplicative_inverse_def eea_3_5 Integers_def QuotientRing_init_def r_mod_def)

text \<open>
  C1: let \<open>(x, y, g)\<close> be what the extended Euclidean algorithm returns for the stored
  remainder of \<open>u\<close> and the modulus. If the remainder is non-zero and \<open>g\<close> equals the
  source ring's one, \<^verbatim>\<open>multiplicative_inverse()\<close> returns the wrapped Bezout
  coefficient \<open>x\<close>, and, in a commutative source ring with division with remainder
  where \<open>(x, y, g)\<close> satisfies the Bezout identity,
  \<open>u.mul(u.multiplicative_inverse()).equals(one())\<close> holds. The method fails with
  \<^verbatim>\<open>ZeroDivisionError\<close> if and only if the stored remainder is zero or \<open>g\<close> is not the
  source ring's one. On the integers the algorithm returns a triple that satisfies the
  Bezout identity; in \<open>Z/4Z\<close> the element \<open>[2]\<close> has no inverse, in \<open>Z/5Z\<close> the
  inverse of \<open>[3]\<close> is \<open>[2]\<close>.
\<close>

theorem multiplicative_inverse_law:
  assumes "eea (remainder u) m = Inr (x, y, g)"
  shows "(r_bool R (remainder u) \<and> r_eq R g (r_one R) \<longrightarrow>
        QuotientRing_multiplicative_inverse R m eea u = QuotientRing_init R m (SourceElement x))
    \<and> (commutative_ring R \<and> division_with_remainder R m \<and> remainder u * x + m * y = g
        \<and> r_bool R (remainder u) \<and> r_eq R g (r_one R) \<longrightarrow>
        (\<exists>v w e. QuotientRing_multiplicative_inverse R m eea u = Inr v
          \<and> QuotientRing_mul R m u v = Inr w
          \<and> QuotientRing_one R m = Inr e
          \<and> QuotientRing_eq R w e))
    \<and> ((\<forall>x'. \<exists>r. r_mod R x' m = Inr r) \<longrightarrow>
        (QuotientRing_multiplicative_inverse R m eea u = Inl ZeroDivisionError
          \<longleftrightarrow> \<not> r_bool R (remainder u) \<or> \<not> r_eq R g (r_one R)))
    \<and> (\<exists>x' y' g'. extended_euclidean_algorithm a b = Inr (x', y', g') \<and> a * x' + b * y' = g')
    \<and> QuotientRing_init Integers 4 (SourceElement 2) = Inr \<lparr> remainder = 2 \<rparr>
    \<and> QuotientRing_multiplicative_inverse Integers 4 extended_euclidean_algorithm
          \<lparr> remainder = 2 \<rparr> = Inl ZeroDivisionError
    \<and> QuotientRing_multiplicative_inverse Integers 5 extended_euclidean_algorithm
          \<lparr> remainder = 3 \<rparr> = Inr \<lparr> remainder = 2 \<rparr>"
proof -
  have "r_bool R (remainder u) \<and> r_eq R g (r_one R) \<longrightarrow>
        QuotientRing_multiplicative_inverse R m eea u = QuotientRing_init R m (SourceElement x)"
    using inverse_returns_bezout [of R u eea m x y g] assms by blast
  moreover have "commutative_ring R \<and> division_with_remainder R m \<and> remainder u * x + m * y = g
        \<and> r_bool R (remainder u) \<and> r_eq R g (r_one R) \<longrightarrow>
        (\<exists>v w e. QuotientRing_multiplicative_inverse R m eea u = Inr v
          \<and> QuotientRing_mul R m u v = Inr w
          \<and> QuotientRing_one R m = Inr e
          \<and> QuotientRing_eq R w e)"
    using inverse_law [of R m u eea x y g] assms by blast
  moreover have "(\<forall>x'. \<exists>r. r_mod R x' m = Inr r) \<longrightarrow>
        (QuotientRing_multiplicative_inverse R m eea u = Inl ZeroDivisionError
          \<longleftrightarrow> \<not> r_bool R (remainder u) \<or> \<not> r_eq R g (r_one R))"
    using inverse_fails_iff [of eea u m x y g R] assms by blast
  moreover have "QuotientRing_init Integers 4 (SourceElement 2) = Inr \<lparr> remainder = 2 \<rparr>"
    by (simp add: QuotientRing_init_def r_mod_def Integers_def)
  ultimately show ?thesis
    using extended_euclidean_algorithm_bezout [of a b] Z4_inverse_2 Z5_inverse_3
    by (intro conjI)
qed

theorem multiplicative_inverse_law_witness:
  "extended_euclidean_algorithm (remainder \<lparr> remainder = 3 \<rparr>) 5 = Inr (2, - 1, 1)
   \<and> commutative_ring Integers \<and> division_with_remainder Integers 5
   \<and> (\<forall>x'. \<exists>r. r_mod Integers x' 5 = Inr r)
   \<and> r_bool Integers (remainder \<lparr> remainder = 3 \<rparr>) \<and> r_eq Integers 1 (r_one Integers)
   \<and> remainder \<lparr> remainder = 3 \<rparr> * 2 + 5 * (- 1) = (1 :: int)
   \<and> QuotientRing_multiplicative_inverse Integers 5 extended_euclidean_algorithm \<lparr> remainder = 3 \<rparr>
       = QuotientRing_init Integers 5 (SourceElement 2)
   \<and> (\<exists>v w e. QuotientRing_multiplicative_inverse Integers 5 extended_euclidean_algorithm
          \<lparr> remainder = 3 \<rparr> = Inr v
        \<and> QuotientRing_mul Integers 5 \<lparr> remainder = 3 \<rparr> v = Inr w
        \<and> QuotientRing_one Integers 5 = Inr e
        \<and> QuotientRing_eq Integers w e)
   \<and> QuotientRing_multiplicative_inverse Integers 5 extended_euclidean_algorithm \<lparr> remainder = 3 \<rparr>
       \<noteq> Inl ZeroDivisionError"
proof -
  have e: "extended_euclidean_algorithm (remainder \<lparr> remainder = 3 \<rparr>) 5 = Inr (2, - 1, 1)"
    by (simp add: eea_3_5)
  have ring: "commutative_ring Integers" by (rule Integers_commutative_ring)
  have dwr: "division_with_remainder Integers 5"
    by (rule Integers_division_with_remainder) simp
  have total: "\<forall>x'. \<exists>r. r_mod Integers x' 5 = Inr r"
    by (simp add: r_mod_def Integers_def)
  have nz: "r_bool Integers (remainder \<lparr> remainder = 3 \<rparr>)" "r_eq Integers 1 (r_one Integers)"
    by (simp_all add: Integers_def)
  have bez: "remainder \<lparr> remainder = 3 \<rparr> * 2 + 5 * (- 1) = (1 :: int)" by simp
  from multiplicative_inverse_law [where eea = extended_euclidean_algorithm
      and u = "\<lparr> remainder = 3 \<rparr>" and m = 5 and x = 2 and y = "- 1" and g = 1
      and R = Integers and a = 3 and b = 5, OF e] ring dwr total nz bez e
  show ?thesis by blast
qed

subsection \<open>No operation changes an existing value\<close>

lemma remove_leading_zeros_in_place_refines:
  "remove_leading_zeros_in_place R z a s
     = s\<lparr> list_at := (list_at s)(a := remove_leading_zeros R z (list_at s a)) \<rparr>"
proof (induction R z a s rule: remove_leading_zeros_in_place.induct)
  case (1 R z a s)
  show ?case
  proof (cases "length (list_at s a) > 1 \<and> r_eq R (last (list_at s a)) z")
    case True
    let ?s1 = "s\<lparr> list_at := (list_at s)(a := butlast (list_at s a)) \<rparr>"
    have "remove_leading_zeros_in_place R z a s = remove_leading_zeros_in_place R z a ?s1"
      using True by (subst remove_leading_zeros_in_place.simps) simp
    also have "\<dots> = ?s1\<lparr> list_at := (list_at ?s1)(a := remove_leading_zeros R z (list_at ?s1 a)) \<rparr>"
      using "1.IH" True by blast
    also have "\<dots> = s\<lparr> list_at := (list_at s)(a := remove_leading_zeros R z (butlast (list_at s a))) \<rparr>"
      by simp
    also have "remove_leading_zeros R z (butlast (list_at s a)) = remove_leading_zeros R z (list_at s a)"
      using True by (subst (2) remove_leading_zeros.simps) simp
    finally show ?thesis .
  next
    case False
    then have "remove_leading_zeros_in_place R z a s = s"
      by (subst remove_leading_zeros_in_place.simps) auto
    moreover from False have "remove_leading_zeros R z (list_at s a) = list_at s a"
      by (subst remove_leading_zeros.simps) auto
    ultimately show ?thesis by simp
  qed
qed

lemma mul_inner_in_place_refines:
  "mul_inner_in_place R a i x j ys s
     = (case mul_inner R i x j ys (list_at s a) of
          Inl e \<Rightarrow> Inl e
        | Inr result \<Rightarrow> Inr (s\<lparr> list_at := (list_at s)(a := result) \<rparr>))"
proof (induction ys arbitrary: j s)
  case Nil
  then show ?case by simp
next
  case (Cons y ys)
  show ?case
  proof (cases "i + j < length (list_at s a)")
    case True
    let ?l1 = "(list_at s a)[i + j := r_add R (list_at s a ! (i + j)) (r_mul R x y)]"
    let ?s1 = "s\<lparr> list_at := (list_at s)(a := ?l1) \<rparr>"
    have step: "add_at_in_place R a (i + j) (r_mul R x y) s = Inr ?s1"
      and pure: "add_at R (list_at s a) (i + j) (r_mul R x y) = Inr ?l1"
      using True by (simp_all add: add_at_in_place_def add_at_def)
    have l1: "list_at ?s1 a = ?l1" by simp
    have same: "\<And>result. ?s1\<lparr> list_at := (list_at ?s1)(a := result) \<rparr>
        = s\<lparr> list_at := (list_at s)(a := result) \<rparr>"
      by simp
    have "mul_inner_in_place R a i x j (y # ys) s = mul_inner_in_place R a i x (Suc j) ys ?s1"
      by (simp add: step)
    also have "\<dots> = (case mul_inner R i x (Suc j) ys ?l1 of
          Inl e \<Rightarrow> Inl e
        | Inr result \<Rightarrow> Inr (s\<lparr> list_at := (list_at s)(a := result) \<rparr>))"
      unfolding Cons.IH [of "Suc j" ?s1] l1 same ..
    also have "mul_inner R i x (Suc j) ys ?l1 = mul_inner R i x j (y # ys) (list_at s a)"
      by (simp add: pure)
    finally show ?thesis .
  next
    case False
    then show ?thesis
      by (simp add: add_at_in_place_def add_at_def)
  qed
qed

lemma mul_outer_in_place_refines:
  "mul_outer_in_place R a i xs ds s
     = (case mul_outer R i xs ds (list_at s a) of
          Inl e \<Rightarrow> Inl e
        | Inr result \<Rightarrow> Inr (s\<lparr> list_at := (list_at s)(a := result) \<rparr>))"
proof (induction xs arbitrary: i s)
  case Nil
  then show ?case by simp
next
  case (Cons x xs)
  show ?case
  proof (cases "mul_inner R i x 0 ds (list_at s a)")
    case (Inl e)
    then show ?thesis by (simp add: mul_inner_in_place_refines)
  next
    case (Inr l1)
    let ?s1 = "s\<lparr> list_at := (list_at s)(a := l1) \<rparr>"
    have l1: "list_at ?s1 a = l1" by simp
    have same: "\<And>result. ?s1\<lparr> list_at := (list_at ?s1)(a := result) \<rparr>
        = s\<lparr> list_at := (list_at s)(a := result) \<rparr>"
      by simp
    have "mul_outer_in_place R a i (x # xs) ds s = mul_outer_in_place R a (Suc i) xs ds ?s1"
      by (simp add: mul_inner_in_place_refines Inr)
    also have "\<dots> = (case mul_outer R (Suc i) xs ds l1 of
          Inl e \<Rightarrow> Inl e
        | Inr result \<Rightarrow> Inr (s\<lparr> list_at := (list_at s)(a := result) \<rparr>))"
      unfolding Cons.IH [of "Suc i" ?s1] l1 same ..
    also have "mul_outer R (Suc i) xs ds l1 = mul_outer R i (x # xs) ds (list_at s a)"
      by (simp add: Inr)
    finally show ?thesis .
  qed
qed

lemma add_in_store:
  "ListPolynomial_add_in_store R p q s =
     (\<lparr> object_zero = object_zero p, object_coefficients = next_list s \<rparr>,
      s\<lparr> list_at := (list_at s)(next_list s :=
            coefficients (ListPolynomial_add R (polynomial_at s p) (polynomial_at s q))),
         next_list := Suc (next_list s) \<rparr>)"
  by (simp add: ListPolynomial_add_in_store_def allocate_def ListPolynomial_init_in_store_def
      remove_leading_zeros_in_place_refines ListPolynomial_add_def ListPolynomial_init_def
      polynomial_at_def Let_def)

lemma neg_in_store:
  "ListPolynomial_neg_in_store R p s =
     (\<lparr> object_zero = object_zero p, object_coefficients = next_list s \<rparr>,
      s\<lparr> list_at := (list_at s)(next_list s :=
            coefficients (ListPolynomial_neg R (polynomial_at s p))),
         next_list := Suc (next_list s) \<rparr>)"
  by (simp add: ListPolynomial_neg_in_store_def allocate_def ListPolynomial_init_in_store_def
      remove_leading_zeros_in_place_refines ListPolynomial_neg_def ListPolynomial_init_def
      polynomial_at_def Let_def)

lemma mul_in_store:
  assumes "object_coefficients p < next_list s" and "object_coefficients q < next_list s"
  shows "\<exists>r. ListPolynomial_mul R (polynomial_at s p) (polynomial_at s q) = Inr r
     \<and> ListPolynomial_mul_in_store R p q s =
       Inr (\<lparr> object_zero = object_zero p, object_coefficients = next_list s \<rparr>,
            s\<lparr> list_at := (list_at s)(next_list s := coefficients r),
               next_list := Suc (next_list s) \<rparr>)"
proof -
  let ?P = "polynomial_at s p" and ?Q = "polynomial_at s q"
  let ?res = "map (convolution_slot R (zero_coefficient ?P) (coefficients ?P) (coefficients ?Q))
            [0..<nat (degree ?P + degree ?Q + 2)]"
  have res: "mul_result R ?P ?Q = Inr ?res" by (rule mul_result_convolution)
  then have outer: "mul_outer R 0 (list_at s (object_coefficients p)) (list_at s (object_coefficients q))
       (replicate (nat (degree ?P + degree ?Q + 2)) (object_zero p)) = Inr ?res"
    by (simp add: mul_result_def polynomial_at_def)
  have pure: "ListPolynomial_mul R ?P ?Q = Inr (ListPolynomial_init R (object_zero p) ?res)"
    using res by (simp add: ListPolynomial_mul_def polynomial_at_def)
  have ne: "object_coefficients p \<noteq> next_list s" "object_coefficients q \<noteq> next_list s"
    using assms by simp_all
  have "ListPolynomial_mul_in_store R p q s =
       Inr (\<lparr> object_zero = object_zero p, object_coefficients = next_list s \<rparr>,
            s\<lparr> list_at := (list_at s)(next_list s := remove_leading_zeros R (object_zero p) ?res),
               next_list := Suc (next_list s) \<rparr>)"
    using ne outer
    by (simp add: ListPolynomial_mul_in_store_def allocate_def mul_outer_in_place_refines
        ListPolynomial_init_in_store_def remove_leading_zeros_in_place_refines)
  with pure show ?thesis by (simp add: ListPolynomial_init_def)
qed

lemma new_element_frame:
  "new_element v t = Inr (w, t') \<Longrightarrow>
     w = next_element t \<and> (\<forall>a < next_element t. remainders t' a = remainders t a)
     \<and> v = Inr (element_at t' w)"
  by (cases v) (auto simp: new_element_def element_at_def)

text \<open>
  C9: no arithmetic operation changes an existing value. On the store, for polynomial
  objects \<open>p\<close>, \<open>q\<close> of the store, \<open>p.add(q)\<close>, \<open>p.neg()\<close> and \<open>p.mul(q)\<close> return an
  object whose coefficient list is a new list object, every list that existed before
  is unchanged (so \<open>p\<close> and \<open>q\<close> still stand for the same polynomials), and the new
  object stands for the sum, the negation or the product. Likewise \<open>add\<close>, \<open>neg\<close> and
  \<open>mul\<close> of quotient-ring elements return a new element and leave the remainder of
  every existing element unchanged.
\<close>

theorem arithmetic_returns_new_value:
  assumes "object_coefficients p < next_list s" and "object_coefficients q < next_list s"
  shows "(\<exists>c s'. ListPolynomial_add_in_store R p q s = (c, s')
        \<and> object_coefficients c = next_list s
        \<and> (\<forall>a < next_list s. list_at s' a = list_at s a)
        \<and> polynomial_at s' p = polynomial_at s p \<and> polynomial_at s' q = polynomial_at s q
        \<and> polynomial_at s' c = ListPolynomial_add R (polynomial_at s p) (polynomial_at s q))
    \<and> (\<exists>c s'. ListPolynomial_neg_in_store R p s = (c, s')
        \<and> object_coefficients c = next_list s
        \<and> (\<forall>a < next_list s. list_at s' a = list_at s a)
        \<and> polynomial_at s' p = polynomial_at s p
        \<and> polynomial_at s' c = ListPolynomial_neg R (polynomial_at s p))
    \<and> (\<exists>c s'. ListPolynomial_mul_in_store R p q s = Inr (c, s')
        \<and> object_coefficients c = next_list s
        \<and> (\<forall>a < next_list s. list_at s' a = list_at s a)
        \<and> polynomial_at s' p = polynomial_at s p \<and> polynomial_at s' q = polynomial_at s q
        \<and> ListPolynomial_mul R (polynomial_at s p) (polynomial_at s q) = Inr (polynomial_at s' c))
    \<and> (QuotientRing_add_in_store Q m u v t = Inr (w, t') \<longrightarrow>
          w = next_element t \<and> (\<forall>a < next_element t. remainders t' a = remainders t a)
          \<and> QuotientRing_add Q m (element_at t u) (element_at t v) = Inr (element_at t' w))
    \<and> (QuotientRing_neg_in_store Q m u t = Inr (w, t') \<longrightarrow>
          w = next_element t \<and> (\<forall>a < next_element t. remainders t' a = remainders t a)
          \<and> QuotientRing_neg Q m (element_at t u) = Inr (element_at t' w))
    \<and> (QuotientRing_mul_in_store Q m u v t = Inr (w, t') \<longrightarrow>
          w = next_element t \<and> (\<forall>a < next_element t. remainders t' a = remainders t a)
          \<and> QuotientRing_mul Q m (element_at t u) (element_at t v) = Inr (element_at t' w))"
proof -
  have add: "\<exists>c s'. ListPolynomial_add_in_store R p q s = (c, s')
        \<and> object_coefficients c = next_list s
        \<and> (\<forall>a < next_list s. list_at s' a = list_at s a)
        \<and> polynomial_at s' p = polynomial_at s p \<and> polynomial_at s' q = polynomial_at s q
        \<and> polynomial_at s' c = ListPolynomial_add R (polynomial_at s p) (polynomial_at s q)"
    unfolding add_in_store using assms
    by (simp add: polynomial_at_def ListPolynomial_add_def ListPolynomial_init_def Let_def)
  have neg: "\<exists>c s'. ListPolynomial_neg_in_store R p s = (c, s')
        \<and> object_coefficients c = next_list s
        \<and> (\<forall>a < next_list s. list_at s' a = list_at s a)
        \<and> polynomial_at s' p = polynomial_at s p
        \<and> polynomial_at s' c = ListPolynomial_neg R (polynomial_at s p)"
    unfolding neg_in_store using assms
    by (simp add: polynomial_at_def ListPolynomial_neg_def ListPolynomial_init_def)
  from mul_in_store [OF assms, of R] obtain r where
    r: "ListPolynomial_mul R (polynomial_at s p) (polynomial_at s q) = Inr r" and
    st: "ListPolynomial_mul_in_store R p q s =
       Inr (\<lparr> object_zero = object_zero p, object_coefficients = next_list s \<rparr>,
            s\<lparr> list_at := (list_at s)(next_list s := coefficients r),
               next_list := Suc (next_list s) \<rparr>)"
    by blast
  have z: "zero_coefficient r = object_zero p"
    using r by (auto simp: ListPolynomial_mul_def ListPolynomial_init_def polynomial_at_def
        split: sum.splits)
  have mul: "\<exists>c s'. ListPolynomial_mul_in_store R p q s = Inr (c, s')
        \<and> object_coefficients c = next_list s
        \<and> (\<forall>a < next_list s. list_at s' a = list_at s a)
        \<and> polynomial_at s' p = polynomial_at s p \<and> polynomial_at s' q = polynomial_at s q
        \<and> ListPolynomial_mul R (polynomial_at s p) (polynomial_at s q) = Inr (polynomial_at s' c)"
    unfolding st r using assms z
    by (simp add: polynomial_at_def)
  have qadd: "QuotientRing_add_in_store Q m u v t = Inr (w, t') \<longrightarrow>
          w = next_element t \<and> (\<forall>a < next_element t. remainders t' a = remainders t a)
          \<and> QuotientRing_add Q m (element_at t u) (element_at t v) = Inr (element_at t' w)"
    unfolding QuotientRing_add_in_store_def QuotientRing_add_def
    by (auto dest!: new_element_frame simp: element_at_def)
  have qneg: "QuotientRing_neg_in_store Q m u t = Inr (w, t') \<longrightarrow>
          w = next_element t \<and> (\<forall>a < next_element t. remainders t' a = remainders t a)
          \<and> QuotientRing_neg Q m (element_at t u) = Inr (element_at t' w)"
    unfolding QuotientRing_neg_in_store_def QuotientRing_neg_def
    by (auto dest!: new_element_frame simp: element_at_def)
  have qmul: "QuotientRing_mul_in_store Q m u v t = Inr (w, t') \<longrightarrow>
          w = next_element t \<and> (\<forall>a < next_element t. remainders t' a = remainders t a)
          \<and> QuotientRing_mul Q m (element_at t u) (element_at t v) = Inr (element_at t' w)"
    unfolding QuotientRing_mul_in_store_def QuotientRing_mul_def
    by (auto dest!: new_element_frame simp: element_at_def)
  from add neg mul qadd qneg qmul show ?thesis by (intro conjI)
qed

theorem arithmetic_returns_new_value_witness:
  "object_coefficients \<lparr> object_zero = 0 :: int, object_coefficients = 0 \<rparr>
     < next_list \<lparr> list_at = (\<lambda>a. if a = 0 then [5, 2, 1 :: int] else []), next_list = 1 \<rparr>
   \<and> (\<exists>c s'. ListPolynomial_add_in_store Integers \<lparr> object_zero = 0, object_coefficients = 0 \<rparr>
          \<lparr> object_zero = 0, object_coefficients = 0 \<rparr>
          \<lparr> list_at = (\<lambda>a. if a = 0 then [5, 2, 1] else []), next_list = 1 \<rparr> = (c, s')
        \<and> object_coefficients c = 1 \<and> list_at s' 0 = [5, 2, 1] \<and> list_at s' 1 = [10, 4, 2])
   \<and> (\<exists>c s'. ListPolynomial_mul_in_store Integers \<lparr> object_zero = 0, object_coefficients = 0 \<rparr>
          \<lparr> object_zero = 0, object_coefficients = 0 \<rparr>
          \<lparr> list_at = (\<lambda>a. if a = 0 then [5, 2, 1] else []), next_list = 1 \<rparr> = Inr (c, s')
        \<and> object_coefficients c = 1 \<and> list_at s' 0 = [5, 2, 1]
        \<and> list_at s' 1 = [25, 20, 14, 4, 1])
   \<and> QuotientRing_add_in_store Integers 4 0 1
        \<lparr> remainders = (\<lambda>a. if a = 0 then 1 else 3), next_element = 2 \<rparr>
       = Inr (2, \<lparr> remainders = (\<lambda>a. if a = 0 then 1 else if a = 1 then 3 else if a = 2 then 0 else 3),
                   next_element = 3 \<rparr>)
   \<and> QuotientRing_add Integers 4 \<lparr> remainder = 1 \<rparr> \<lparr> remainder = 3 \<rparr> = Inr \<lparr> remainder = 0 \<rparr>"
proof -
  let ?p = "\<lparr> object_zero = 0 :: int, object_coefficients = 0 \<rparr>"
  let ?s = "\<lparr> list_at = (\<lambda>a. if a = 0 then [5, 2, 1 :: int] else []), next_list = 1 \<rparr>"
  let ?t = "\<lparr> remainders = (\<lambda>a. if a = 0 then 1 else 3 :: int), next_element = 2 \<rparr>"
  let ?t' = "\<lparr> remainders = (\<lambda>a. if a = 0 then 1 else if a = 1 then 3 else if a = 2 then 0 else 3 :: int),
                   next_element = 3 \<rparr>"
  have h: "object_coefficients ?p < next_list ?s" by simp
  have P: "polynomial_at ?s ?p = \<lparr> zero_coefficient = 0, coefficients = [5, 2, 1] \<rparr>"
    by (simp add: polynomial_at_def)
  have A: "ListPolynomial_add Integers \<lparr> zero_coefficient = 0, coefficients = [5, 2, 1] \<rparr>
      \<lparr> zero_coefficient = 0, coefficients = [5, 2, 1] \<rparr>
      = \<lparr> zero_coefficient = 0, coefficients = [10, 4, 2] \<rparr>"
    by code_simp
  have M: "ListPolynomial_mul Integers \<lparr> zero_coefficient = 0, coefficients = [5, 2, 1] \<rparr>
      \<lparr> zero_coefficient = 0, coefficients = [5, 2, 1] \<rparr>
      = Inr \<lparr> zero_coefficient = 0, coefficients = [25, 20, 14, 4, 1] \<rparr>"
    by code_simp
  have Q: "QuotientRing_add_in_store Integers 4 0 1 ?t = Inr (2, ?t')"
    by (simp add: QuotientRing_add_in_store_def new_element_def QuotientRing_init_def r_mod_def
        Integers_def fun_eq_iff)
  note T = arithmetic_returns_new_value [OF h h, where R = Integers and Q = Integers and m = 4
      and u = 0 and v = 1 and t = ?t and w = 2 and t' = ?t']
  from T obtain c s' where
    a: "ListPolynomial_add_in_store Integers ?p ?p ?s = (c, s')"
      "object_coefficients c = next_list ?s"
      "\<forall>a < next_list ?s. list_at s' a = list_at ?s a"
      "polynomial_at s' c = ListPolynomial_add Integers (polynomial_at ?s ?p) (polynomial_at ?s ?p)"
    by blast
  from a(4) have "polynomial_at s' c = \<lparr> zero_coefficient = 0, coefficients = [10, 4, 2] \<rparr>"
    unfolding P A by simp
  then have "coefficients (polynomial_at s' c) = [10, 4, 2]" by simp
  then have a1: "list_at s' 1 = [10, 4, 2]" using a(2) by (simp add: polynomial_at_def)
  from a(3) have a0: "list_at s' 0 = [5, 2, 1]" by simp
  from T obtain d s'' where
    m: "ListPolynomial_mul_in_store Integers ?p ?p ?s = Inr (d, s'')"
      "object_coefficients d = next_list ?s"
      "\<forall>a < next_list ?s. list_at s'' a = list_at ?s a"
      "ListPolynomial_mul Integers (polynomial_at ?s ?p) (polynomial_at ?s ?p) = Inr (polynomial_at s'' d)"
    by blast
  from m(4) have "polynomial_at s'' d = \<lparr> zero_coefficient = 0, coefficients = [25, 20, 14, 4, 1] \<rparr>"
    unfolding P M by simp
  then have "coefficients (polynomial_at s'' d) = [25, 20, 14, 4, 1]" by simp
  then have m1: "list_at s'' 1 = [25, 20, 14, 4, 1]" using m(2) by (simp add: polynomial_at_def)
  from m(3) have m0: "list_at s'' 0 = [5, 2, 1]" by simp
  from T Q have "QuotientRing_add Integers 4 (element_at ?t 0) (element_at ?t 1) = Inr (element_at ?t' 2)"
    by blast
  then have q: "QuotientRing_add Integers 4 \<lparr> remainder = 1 \<rparr> \<lparr> remainder = 3 \<rparr> = Inr \<lparr> remainder = 0 \<rparr>"
    by (simp add: element_at_def)
  have c1: "object_coefficients c = 1" using a(2) by simp
  have d1: "object_coefficients d = 1" using m(2) by simp
  from h a(1) c1 a0 a1 m(1) d1 m0 m1 Q q show ?thesis by blast
qed

end
